theory Spec2Isabelle
  imports Complex_Main "HOL-Library.Multiset"
begin

section \<open>Data model of the task dispatcher (scheduler.ts, task.ts)\<close>

text \<open>
  The enum \<open>TaskState\<close> of task.ts. The source lower-cases the enum's string value in its
  error messages; \<open>state_lower\<close> is that lower-cased name.
\<close>

datatype TaskState = QUEUED | RUNNING | COMPLETED | FAILED | CANCELLED

fun state_lower :: "TaskState \<Rightarrow> string" where
  "state_lower QUEUED = ''queued''"
| "state_lower RUNNING = ''running''"
| "state_lower COMPLETED = ''completed''"
| "state_lower FAILED = ''failed''"
| "state_lower CANCELLED = ''cancelled''"

text \<open>
  JavaScript values that travel through the dispatcher: results, thrown values and
  rejection reasons are of type \<open>any\<close> in the source. \<open>JError m\<close> is \<open>new Error(m)\<close>,
  \<open>JThrottleError u\<close> is a \<open>ThrottleError\<close> whose \<open>until\<close> is the time \<open>u\<close> (milliseconds).
  Numbers are modelled exactly: timestamps and counters as \<open>int\<close>, priorities as \<open>real\<close>.
\<close>

datatype jsvalue = JUndefined | JNum int | JStr string | JError string | JThrottleError int

text \<open>
  What one invocation of a Task's executor does, as \<open>ScheduledTask.run\<close> sees it: it returns a
  value that is not a promise, it throws, or it returns a promise which later fulfils or rejects.
\<close>

datatype outcome = Returns jsvalue | Throws jsvalue | AsyncResolves jsvalue | AsyncRejects jsvalue

text \<open>
  A Task (task.ts): the executor and the optional default priority. The executor is user code and
  may be stateful (the \<open>flaky\<close> example of the repository): it is a function of the input data and
  of the number of invocations made before.
\<close>

record task =
  task_run :: "jsvalue \<Rightarrow> nat \<Rightarrow> outcome"
  task_priority :: "real option"

record schedule_options =
  opt_priority :: "real option"
  opt_retries :: "int option"
  opt_data :: "jsvalue option"

text \<open>
  The promise a ScheduledTask creates lazily: its settlement, the continuations registered while
  it is pending (by an identifier), and the log of continuations that have fired, each with the
  outcome it was given.
\<close>

datatype settled = Pending | Resolved jsvalue | Rejected jsvalue

record js_promise =
  pstate :: settled
  reactions :: "nat list"
  fired :: "(nat \<times> settled) list"

text \<open>
  The class \<open>ScheduledTask\<close>. \<open>promise = None\<close> is \<open>_promise == null\<close>; the fields \<open>_resolve\<close>
  and \<open>_reject\<close> are \<open>NOOP\<close> exactly then, since the three are only assigned together.
  \<open>calls\<close> is a ghost counter of executor invocations.
\<close>

record scheduled_task =
  the_task :: task
  retries :: int
  promise :: "js_promise option"
  state :: TaskState
  attempt :: int
  task_id :: nat
  data :: jsvalue
  priority :: "real option"
  scheduled :: int
  calls :: nat

datatype event = EvSchedule nat | EvFailedTask nat jsvalue | EvFailedAttempt nat jsvalue

text \<open>
  The scheduler together with the objects it refers to: \<open>heap\<close> maps a reference to the
  ScheduledTask object (the reference of a task is its id), \<open>queue\<close> is the content of the
  priority queue (references), \<open>id_counter\<close> is the static \<open>_ID_COUNTER\<close>, and \<open>events\<close> logs every
  \<open>emit\<close> in order.
\<close>

record scheduler =
  heap :: "nat \<Rightarrow> scheduled_task"
  queue :: "nat list"
  id_counter :: nat
  events :: "event list"

definition update_task :: "nat \<Rightarrow> (scheduled_task \<Rightarrow> scheduled_task) \<Rightarrow> scheduler \<Rightarrow> scheduler" where
  "update_task i f s = s\<lparr>heap := (heap s)(i := f (heap s i))\<rparr>"

definition emit :: "event \<Rightarrow> scheduler \<Rightarrow> scheduler" where
  "emit e s = s\<lparr>events := events s @ [e]\<rparr>"

section \<open>The priority queue\<close>

text \<open>
  Modelled from the spec: the package \<open>priorityqueue\<close> is an external dependency and not part of
  the sources. \<open>next()\<close> "removes and returns the highest-priority QUEUED task", so \<open>pop\<close> removes
  and returns an element that the comparator ranks highest; among equally ranked elements the
  earliest in the list is taken (the spec leaves the tie-break open). \<open>push\<close> appends.
\<close>

fun pq_best :: "('a \<Rightarrow> 'a \<Rightarrow> real) \<Rightarrow> 'a \<Rightarrow> 'a list \<Rightarrow> 'a" where
  "pq_best cmp b [] = b"
| "pq_best cmp b (x # xs) = pq_best cmp (if cmp x b > 0 then x else b) xs"

definition pq_pop :: "('a \<Rightarrow> 'a \<Rightarrow> real) \<Rightarrow> 'a list \<Rightarrow> ('a \<times> 'a list) option" where
  "pq_pop cmp q = (case q of [] \<Rightarrow> None
                   | x # xs \<Rightarrow> (let m = pq_best cmp x xs in Some (m, remove1 m q)))"

definition pq_push :: "'a \<Rightarrow> 'a list \<Rightarrow> 'a list" where
  "pq_push x q = q @ [x]"

section \<open>ScheduledTask: constructor and promise plumbing\<close>

definition new_ScheduledTask ::
  "task \<Rightarrow> schedule_options option \<Rightarrow> nat \<Rightarrow> int \<Rightarrow> scheduled_task" where
  "new_ScheduledTask tk options i now =
     \<lparr> the_task = tk,
       retries = (case options of None \<Rightarrow> 0
                  | Some opts \<Rightarrow> (case opt_retries opts of None \<Rightarrow> 0 | Some r \<Rightarrow> r)),
       promise = None,
       state = QUEUED,
       attempt = 0,
       task_id = i,
       data = (case options of None \<Rightarrow> JUndefined
               | Some opts \<Rightarrow> (case opt_data opts of None \<Rightarrow> JUndefined | Some d \<Rightarrow> d)),
       priority = (case options of None \<Rightarrow> task_priority tk
                   | Some opts \<Rightarrow> (case opt_priority opts of None \<Rightarrow> task_priority tk
                                   | Some p \<Rightarrow> Some p)),
       scheduled = now,
       calls = 0 \<rparr>"

text \<open>Settling a promise: only a pending promise changes, and its continuations all fire.\<close>

definition promise_settle :: "settled \<Rightarrow> js_promise \<Rightarrow> js_promise" where
  "promise_settle out p =
     (if pstate p = Pending
      then p\<lparr>pstate := out, reactions := [],
             fired := fired p @ map (\<lambda>h. (h, out)) (reactions p)\<rparr>
      else p)"

text \<open>\<open>this._resolve(x)\<close> and \<open>this._reject(x)\<close>: \<open>NOOP\<close> while no promise has been created.\<close>

definition task_resolve :: "jsvalue \<Rightarrow> scheduled_task \<Rightarrow> scheduled_task" where
  "task_resolve x t = (case promise t of None \<Rightarrow> t
                       | Some p \<Rightarrow> t\<lparr>promise := Some (promise_settle (Resolved x) p)\<rparr>)"

definition task_reject :: "jsvalue \<Rightarrow> scheduled_task \<Rightarrow> scheduled_task" where
  "task_reject x t = (case promise t of None \<Rightarrow> t
                      | Some p \<Rightarrow> t\<lparr>promise := Some (promise_settle (Rejected x) p)\<rparr>)"

text \<open>
  \<open>Promise.prototype.then\<close> on the underlying promise with the continuation \<open>h\<close>: registered
  while pending, fired with the stored outcome once settled.
\<close>

definition promise_then :: "nat \<Rightarrow> js_promise \<Rightarrow> js_promise" where
  "promise_then h p =
     (case pstate p of Pending \<Rightarrow> p\<lparr>reactions := reactions p @ [h]\<rparr>
      | out \<Rightarrow> p\<lparr>fired := fired p @ [(h, out)]\<rparr>)"

text \<open>
  The methods copied from \<open>Promise.prototype\<close> onto \<open>ScheduledTask.prototype\<close> (lines 290-306):
  create the promise if there is none, capturing \<open>_resolve\<close> and \<open>_reject\<close>, then forward.
\<close>

definition ScheduledTask_then :: "nat \<Rightarrow> scheduled_task \<Rightarrow> scheduled_task" where
  "ScheduledTask_then h t =
     (let p = (case promise t of
                 None \<Rightarrow> \<lparr>pstate = Pending, reactions = [], fired = []\<rparr>
               | Some p \<Rightarrow> p)
      in t\<lparr>promise := Some (promise_then h p)\<rparr>)"

section \<open>Scheduler\<close>

definition Scheduler_schedule ::
  "int \<Rightarrow> task \<Rightarrow> schedule_options option \<Rightarrow> scheduler \<Rightarrow> nat \<times> scheduler" where
  "Scheduler_schedule now tk options s =
     (let i = id_counter s;
          scheduled_t = new_ScheduledTask tk options i now;
          s1 = s\<lparr>heap := (heap s)(i := scheduled_t), id_counter := Suc i\<rparr>;
          s2 = s1\<lparr>queue := pq_push i (queue s1)\<rparr>
      in (i, emit (EvSchedule i) s2))"

text \<open>\<open>Scheduler.compare\<close> with its local \<open>calculate\<close> and \<open>summary\<close>.\<close>

record calc =
  retry :: int
  time :: int
  cpriority :: real

definition calculate :: "int \<Rightarrow> scheduled_task \<Rightarrow> calc" where
  "calculate now t =
     \<lparr> retry = attempt t,
       time = now - scheduled t,
       cpriority = (case priority t of None \<Rightarrow> 0 | Some p \<Rightarrow> p) \<rparr>"

definition summary :: "calc \<Rightarrow> real" where
  "summary c = cpriority c + real_of_int (time c) / 5000"

definition Scheduler_compare :: "int \<Rightarrow> scheduled_task \<Rightarrow> scheduled_task \<Rightarrow> real" where
  "Scheduler_compare now first second =
     (let fData = calculate now first; sData = calculate now second
      in summary fData - summary sData)"

definition Scheduler_reschedule :: "nat \<Rightarrow> scheduler \<Rightarrow> scheduler" where
  "Scheduler_reschedule i s = emit (EvSchedule i) (s\<lparr>queue := pq_push i (queue s)\<rparr>)"

lemma pq_best_in: "pq_best cmp b xs \<in> set (b # xs)"
  by (induction xs arbitrary: b) (auto split: if_splits)

lemma pq_pop_Some:
  assumes "pq_pop cmp q = Some (m, q')"
  shows "m \<in> set q" and "q' = remove1 m q"
proof -
  obtain x xs where q: "q = x # xs"
    using assms by (cases q) (simp_all add: pq_pop_def)
  from assms q have m: "m = pq_best cmp x xs"
    by (simp add: pq_pop_def Let_def del: remove1.simps)
  from assms q m show "q' = remove1 m q"
    by (simp add: pq_pop_def Let_def del: remove1.simps)
  show "m \<in> set q"
    using pq_best_in [of cmp x xs] m q by simp
qed

lemma pq_pop_None: "pq_pop cmp q = None \<longleftrightarrow> q = []"
  by (cases q) (simp_all add: pq_pop_def Let_def)

lemma pq_pop_shorter: "pq_pop cmp q = Some (m, q') \<Longrightarrow> length q' < length q"
proof -
  assume a: "pq_pop cmp q = Some (m, q')"
  have "m \<in> set q" and "q' = remove1 m q"
    using pq_pop_Some [OF a] by blast+
  then show ?thesis
    using length_pos_if_in_set [of m q] by (simp add: length_remove1)
qed

text \<open>
  \<open>Scheduler.next\<close>: pop until a QUEUED task is found or the queue is empty. The comparator
  reads the clock (\<open>now\<close>).
\<close>

function Scheduler_next :: "int \<Rightarrow> scheduler \<Rightarrow> nat option \<times> scheduler" where
  "Scheduler_next now s =
     (case pq_pop (\<lambda>a b. Scheduler_compare now (heap s a) (heap s b)) (queue s) of
        None \<Rightarrow> (None, s)
      | Some (i, q') \<Rightarrow>
          if state (heap s i) = QUEUED then (Some i, s\<lparr>queue := q'\<rparr>)
          else Scheduler_next now (s\<lparr>queue := q'\<rparr>))"
  by pat_completeness auto
termination
  by (relation "measure (\<lambda>(now, s). length (queue s))") (auto dest: pq_pop_shorter)

declare Scheduler_next.simps [simp del]

section \<open>ScheduledTask: completion, cancellation, run\<close>

definition finishSuccess :: "nat \<Rightarrow> jsvalue \<Rightarrow> scheduler \<Rightarrow> scheduler" where
  "finishSuccess i v s =
     (let s1 = update_task i (\<lambda>t. t\<lparr>state := COMPLETED\<rparr>) s
      in update_task i (task_resolve v) s1)"

definition finishError :: "nat \<Rightarrow> jsvalue \<Rightarrow> scheduler \<Rightarrow> scheduler" where
  "finishError i error s =
     (if retries (heap s i) > 0 then
        (let s1 = update_task i (\<lambda>t. t\<lparr>state := QUEUED\<rparr>) s;
             s2 = update_task i (\<lambda>t. t\<lparr>retries := retries t - 1\<rparr>) s1;
             s3 = update_task i (\<lambda>t. t\<lparr>attempt := attempt t + 1\<rparr>) s2;
             s4 = Scheduler_reschedule i s3
         in emit (EvFailedAttempt i error) s4)
      else
        (let s1 = update_task i (\<lambda>t. t\<lparr>state := FAILED\<rparr>) s;
             s2 = update_task i (task_reject error) s1
         in emit (EvFailedTask i error) s2))"

text \<open>
  \<open>Scheduler.cancel\<close> and \<open>ScheduledTask.cancel\<close> call each other. A result is the thrown
  value (\<open>Inl\<close>) or normal completion, together with the state the call leaves behind.
\<close>

function Scheduler_cancel :: "nat \<Rightarrow> scheduler \<Rightarrow> (jsvalue + unit) \<times> scheduler"
  and ScheduledTask_cancel :: "nat \<Rightarrow> scheduler \<Rightarrow> (jsvalue + unit) \<times> scheduler" where
  "Scheduler_cancel i s =
     (if state (heap s i) \<noteq> CANCELLED then ScheduledTask_cancel i s
      else (Inr (), s))"
| "ScheduledTask_cancel i s =
     (if state (heap s i) \<noteq> QUEUED
      then (Inl (JError (''Attempted to cancel a '' @ state_lower (state (heap s i)) @ '' task.'')), s)
      else (case Scheduler_cancel i (update_task i (\<lambda>t. t\<lparr>state := CANCELLED\<rparr>) s) of
              (Inl e, s2) \<Rightarrow> (Inl e, s2)
            | (Inr u, s2) \<Rightarrow> (Inr (), update_task i (task_reject (JError ''Event cancelled.'')) s2)))"
  by pat_completeness auto
termination
  by (relation "measure (\<lambda>x. case x of
          Inl (i, s) \<Rightarrow> (if state (heap s i) = CANCELLED then 0 else 2)
        | Inr (i, s) \<Rightarrow> (if state (heap s i) = QUEUED then 1 else 0))")
     (auto simp: update_task_def)

declare Scheduler_cancel.simps [simp del] ScheduledTask_cancel.simps [simp del]

text \<open>
  \<open>ScheduledTask.run\<close>. It returns the executor's value, or a promise that settles as the
  executor's promise does (\<open>RunPromise\<close> carries that future settlement), or it throws. The
  callbacks it registers on the executor's promise are \<open>run_callback\<close>.
\<close>

datatype run_return = RunValue jsvalue | RunPromise outcome

definition ScheduledTask_run :: "nat \<Rightarrow> scheduler \<Rightarrow> (jsvalue + run_return) \<times> scheduler" where
  "ScheduledTask_run i s =
     (if state (heap s i) \<noteq> QUEUED
      then (Inl (JError (''Attempted to start a '' @ state_lower (state (heap s i)) @ '' task.'')), s)
      else
        (let s1 = update_task i (\<lambda>t. t\<lparr>state := RUNNING\<rparr>) s;
             t = heap s1 i;
             result = task_run (the_task t) (data t) (calls t);
             s2 = update_task i (\<lambda>t. t\<lparr>calls := calls t + 1\<rparr>) s1
         in case result of
              Returns v \<Rightarrow> (Inr (RunValue v), finishSuccess i v s2)
            | Throws e \<Rightarrow> (Inl e, finishError i e s2)
            | AsyncResolves v \<Rightarrow> (Inr (RunPromise result), s2)
            | AsyncRejects e \<Rightarrow> (Inr (RunPromise result), s2)))"

definition run_callback :: "nat \<Rightarrow> outcome \<Rightarrow> scheduler \<Rightarrow> scheduler" where
  "run_callback i result s =
     (case result of
        AsyncResolves v \<Rightarrow> finishSuccess i v s
      | AsyncRejects e \<Rightarrow> finishError i e s
      | _ \<Rightarrow> s)"

section \<open>Dispatch\<close>

text \<open>
  One turn of \<open>Worker._main\<close> on a task it obtained: \<open>try { await task.run() } catch {}\<close>.
  The attempt is awaited until it settles and whatever it throws is swallowed.
\<close>

definition run_await :: "nat \<Rightarrow> scheduler \<Rightarrow> scheduler" where
  "run_await i s =
     (case ScheduledTask_run i s of
        (Inr (RunPromise result), s1) \<Rightarrow> run_callback i result s1
      | (_, s1) \<Rightarrow> s1)"

text \<open>
  Every attempt uses up a queue entry or one retry of the task it ran. \<open>queue_weight\<close> counts
  both; it is the measure by which the loops below end.
\<close>

definition queue_weight :: "scheduler \<Rightarrow> nat" where
  "queue_weight s = sum_list (map (\<lambda>i. nat (retries (heap s i)) + 1) (queue s))"

lemma next_result:
  "Scheduler_next now s = (r, s') \<Longrightarrow>
     heap s' = heap s \<and> events s' = events s \<and> id_counter s' = id_counter s \<and>
     (case r of None \<Rightarrow> queue s' = [] \<and> (\<forall>i \<in> set (queue s). state (heap s i) \<noteq> QUEUED)
      | Some i \<Rightarrow> state (heap s i) = QUEUED \<and>
          (\<exists>D. mset (queue s) = mset (queue s') + {#i#} + D \<and> (\<forall>j \<in># D. state (heap s j) \<noteq> QUEUED)))"
proof (induction now s arbitrary: r s' rule: Scheduler_next.induct)
  case (1 now s)
  let ?cmp = "\<lambda>a b. Scheduler_compare now (heap s a) (heap s b)"
  show ?case
  proof (cases "pq_pop ?cmp (queue s)")
    case None
    then have "queue s = []" by (simp add: pq_pop_None)
    with None "1.prems" show ?thesis
      by (auto simp: Scheduler_next.simps[of now s])
  next
    case (Some mq)
    obtain m q' where mq: "mq = (m, q')" by (cases mq)
    have pop: "pq_pop ?cmp (queue s) = Some (m, q')" using Some mq by simp
    have m_in: "m \<in> set (queue s)" and q': "q' = remove1 m (queue s)"
      using pq_pop_Some [OF pop] by blast+
    have ms: "mset (queue s) = mset q' + {#m#}"
      using m_in q' by simp
    show ?thesis
    proof (cases "state (heap s m) = QUEUED")
      case True
      with pop "1.prems" have "r = Some m" "s' = s\<lparr>queue := q'\<rparr>"
        by (auto simp: Scheduler_next.simps[of now s])
      with True ms show ?thesis by (auto intro: exI[of _ "{#}"])
    next
      case False
      with pop "1.prems" have rec: "Scheduler_next now (s\<lparr>queue := q'\<rparr>) = (r, s')"
        by (auto simp: Scheduler_next.simps[of now s])
      note IH = "1.IH" [OF pop refl False rec]
      show ?thesis
      proof (cases r)
        case None
        with IH have "\<forall>i \<in> set q'. state (heap s i) \<noteq> QUEUED" by simp
        moreover have "set (queue s) = insert m (set q')"
          using ms by (metis mset_eq_setD set_mset_add_mset_insert set_mset_mset union_mset_add_mset_right add.right_neutral)
        ultimately show ?thesis using IH None False by auto
      next
        case (Some i)
        with IH obtain D where D: "mset q' = mset (queue s') + {#i#} + D"
          "\<forall>j \<in># D. state (heap s j) \<noteq> QUEUED" by auto
        have "mset (queue s) = mset (queue s') + {#i#} + (D + {#m#})"
          using ms D by simp
        moreover have "\<forall>j \<in># D + {#m#}. state (heap s j) \<noteq> QUEUED"
          using D False by auto
        ultimately show ?thesis using IH Some by auto
      qed
    qed
  qed
qed

lemma next_weight:
  assumes "Scheduler_next now s = (Some i, s')"
  shows "queue_weight s' + nat (retries (heap s i)) + 1 \<le> queue_weight s"
    and "state (heap s' i) = QUEUED"
proof -
  from next_result [OF assms] obtain D where
    h: "heap s' = heap s" and st: "state (heap s i) = QUEUED"
    and D: "mset (queue s) = mset (queue s') + {#i#} + D"
    by auto
  let ?f = "\<lambda>i. nat (retries (heap s i)) + 1"
  have "queue_weight s = sum_mset (image_mset ?f (mset (queue s)))"
    by (simp add: queue_weight_def sum_mset_sum_list [symmetric])
  also have "\<dots> = sum_mset (image_mset ?f (mset (queue s'))) + ?f i + sum_mset (image_mset ?f D)"
    by (simp add: D)
  also have "sum_mset (image_mset ?f (mset (queue s'))) = queue_weight s'"
    by (simp add: queue_weight_def h sum_mset_sum_list [symmetric])
  finally show "queue_weight s' + nat (retries (heap s i)) + 1 \<le> queue_weight s" by simp
  show "state (heap s' i) = QUEUED" using h st by simp
qed

lemma weight_cong:
  assumes "queue s' = queue s" and "\<And>j. retries (heap s' j) = retries (heap s j)"
  shows "queue_weight s' = queue_weight s"
  unfolding queue_weight_def by (simp add: assms)

lemma weight_update_other:
  assumes "\<And>t. retries (f t) = retries t"
  shows "queue_weight (update_task i f s) = queue_weight s"
  by (rule weight_cong) (simp_all add: update_task_def assms)

lemma retries_task_resolve [simp]: "retries (task_resolve v t) = retries t"
  by (simp add: task_resolve_def split: option.splits)

lemma retries_task_reject [simp]: "retries (task_reject v t) = retries t"
  by (simp add: task_reject_def split: option.splits)

lemma weight_finishSuccess: "queue_weight (finishSuccess i v s) = queue_weight s"
  by (simp add: finishSuccess_def Let_def weight_update_other)

lemma weight_finishError: "queue_weight (finishError i e s) \<le> queue_weight s + nat (retries (heap s i))"
proof (cases "retries (heap s i) > 0")
  case True
  let ?f = "\<lambda>j. nat (retries (heap s j)) + 1"
  let ?s' = "finishError i e s"
  have q: "queue ?s' = queue s @ [i]"
    and h: "heap ?s' = (heap s)(i := (heap s i)\<lparr>state := QUEUED, retries := retries (heap s i) - 1, attempt := attempt (heap s i) + 1\<rparr>)"
    using True
    by (simp_all add: finishError_def Let_def update_task_def emit_def Scheduler_reschedule_def pq_push_def)
  have le: "\<And>j. nat (retries (heap ?s' j)) + 1 \<le> ?f j"
    by (auto simp: h intro: nat_mono)
  have "sum_list (map (\<lambda>j. nat (retries (heap ?s' j)) + 1) (queue s)) \<le> sum_list (map ?f (queue s))"
    by (rule sum_list_mono) (rule le)
  moreover have "nat (retries (heap ?s' i)) + 1 = nat (retries (heap s i))"
    using True by (simp add: h)
  ultimately show ?thesis
    by (simp add: queue_weight_def q)
next
  case False
  then have "finishError i e s =
      emit (EvFailedTask i e) (update_task i (task_reject e) (update_task i (\<lambda>t. t\<lparr>state := FAILED\<rparr>) s))"
    by (simp add: finishError_def Let_def)
  moreover have "\<And>ev s. queue_weight (emit ev s) = queue_weight s"
    by (rule weight_cong) (simp_all add: emit_def)
  ultimately have "queue_weight (finishError i e s) = queue_weight s"
    by (simp add: weight_update_other)
  then show ?thesis by simp
qed

definition running_task :: "nat \<Rightarrow> scheduler \<Rightarrow> scheduler" where
  "running_task i s =
     update_task i (\<lambda>t. t\<lparr>calls := calls t + 1\<rparr>) (update_task i (\<lambda>t. t\<lparr>state := RUNNING\<rparr>) s)"

lemma running_task_fields:
  "queue (running_task i s) = queue s"
  "events (running_task i s) = events s"
  "id_counter (running_task i s) = id_counter s"
  "heap (running_task i s) = (heap s)(i := (heap s i)\<lparr>state := RUNNING, calls := calls (heap s i) + 1\<rparr>)"
  by (simp_all add: running_task_def update_task_def)

lemma run_unfold:
  assumes "state (heap s i) = QUEUED"
  shows "ScheduledTask_run i s =
    (case task_run (the_task (heap s i)) (data (heap s i)) (calls (heap s i)) of
       Returns v \<Rightarrow> (Inr (RunValue v), finishSuccess i v (running_task i s))
     | Throws e \<Rightarrow> (Inl e, finishError i e (running_task i s))
     | AsyncResolves v \<Rightarrow> (Inr (RunPromise (AsyncResolves v)), running_task i s)
     | AsyncRejects e \<Rightarrow> (Inr (RunPromise (AsyncRejects e)), running_task i s))"
  using assms
  by (simp add: ScheduledTask_run_def Let_def running_task_def update_task_def split: outcome.splits)

lemma run_wrong_state:
  assumes "state (heap s i) \<noteq> QUEUED"
  shows "ScheduledTask_run i s =
    (Inl (JError (''Attempted to start a '' @ state_lower (state (heap s i)) @ '' task.'')), s)"
  using assms by (simp add: ScheduledTask_run_def)

lemma weight_running_task: "queue_weight (running_task i s) = queue_weight s"
  by (rule weight_cong) (simp_all add: running_task_fields)

lemma weight_run:
  "queue_weight (snd (ScheduledTask_run i s)) \<le> queue_weight s + nat (retries (heap s i))"
proof (cases "state (heap s i) = QUEUED")
  case False
  then show ?thesis by (simp add: run_wrong_state)
next
  case True
  have r2: "retries (heap (running_task i s) i) = retries (heap s i)"
    by (simp add: running_task_fields)
  have fe: "\<And>e. queue_weight (finishError i e (running_task i s)) \<le> queue_weight s + nat (retries (heap s i))"
    using weight_finishError [of i _ "running_task i s"] by (simp only: weight_running_task r2)
  show ?thesis
    by (simp add: run_unfold [OF True] fe weight_finishSuccess weight_running_task split: outcome.splits)
qed

lemma weight_run_await:
  "queue_weight (run_await i s) \<le> queue_weight s + nat (retries (heap s i))"
proof (cases "state (heap s i) = QUEUED")
  case False
  then show ?thesis by (simp add: run_await_def run_wrong_state)
next
  case True
  have r2: "retries (heap (running_task i s) i) = retries (heap s i)"
    by (simp add: running_task_fields)
  have fe: "\<And>e. queue_weight (finishError i e (running_task i s)) \<le> queue_weight s + nat (retries (heap s i))"
    using weight_finishError [of i _ "running_task i s"] by (simp only: weight_running_task r2)
  show ?thesis
    by (simp add: run_await_def run_callback_def run_unfold [OF True] fe weight_finishSuccess
        weight_running_task split: outcome.splits)
qed

text \<open>
  Repeated dispatch by one worker: \<open>next()\<close>, run the task, again, until \<open>next()\<close> returns
  \<open>null\<close> (where the worker suspends until the next \<open>schedule\<close> event). \<open>clock k\<close> is the
  time at which the \<open>k\<close>-th call of \<open>next()\<close> happens.
\<close>

function dispatch :: "(nat \<Rightarrow> int) \<Rightarrow> scheduler \<Rightarrow> scheduler" where
  "dispatch clock s =
     (case Scheduler_next (clock 0) s of
        (None, s1) \<Rightarrow> s1
      | (Some i, s1) \<Rightarrow> dispatch (\<lambda>k. clock (Suc k)) (run_await i s1))"
  by pat_completeness auto
termination
proof (relation "measure (\<lambda>(clock, s). queue_weight s)", simp, clarsimp)
  fix clock :: "nat \<Rightarrow> int" and s i s1
  assume "(Some i, s1) = Scheduler_next (clock 0) s"
  then have nx: "Scheduler_next (clock 0) s = (Some i, s1)" by simp
  have "heap s1 = heap s" using next_result [OF nx] by simp
  then have "queue_weight (run_await i s1) \<le> queue_weight s1 + nat (retries (heap s i))"
    using weight_run_await [of i s1] by simp
  with next_weight(1) [OF nx] show "queue_weight (run_await i s1) < queue_weight s" by simp
qed

declare dispatch.simps [simp del]

text \<open>One turn of that loop, and the state after the first \<open>k\<close> turns.\<close>

definition dispatch_turn :: "int \<Rightarrow> scheduler \<Rightarrow> scheduler" where
  "dispatch_turn now s =
     (case Scheduler_next now s of
        (None, s1) \<Rightarrow> s1
      | (Some i, s1) \<Rightarrow> run_await i s1)"

fun dispatch_turns :: "nat \<Rightarrow> (nat \<Rightarrow> int) \<Rightarrow> scheduler \<Rightarrow> scheduler" where
  "dispatch_turns 0 clock s = s"
| "dispatch_turns (Suc k) clock s = dispatch_turn (clock k) (dispatch_turns k clock s)"

text \<open>Whether an executor invocation fails, and the value its outcome carries.\<close>

fun is_failure :: "outcome \<Rightarrow> bool" where
  "is_failure (Throws e) = True"
| "is_failure (AsyncRejects e) = True"
| "is_failure (Returns v) = False"
| "is_failure (AsyncResolves v) = False"

fun payload :: "outcome \<Rightarrow> jsvalue" where
  "payload (Throws e) = e"
| "payload (AsyncRejects e) = e"
| "payload (Returns v) = v"
| "payload (AsyncResolves v) = v"

text \<open>
  The events a task emits over \<open>k\<close> failed attempts that were each retried: a \<open>schedule\<close>
  from the requeue, then \<open>failedAttempt\<close> with the error of that invocation.
\<close>

definition failing_trace :: "nat \<Rightarrow> (nat \<Rightarrow> outcome) \<Rightarrow> nat \<Rightarrow> nat \<Rightarrow> event list" where
  "failing_trace i run c k =
     concat (map (\<lambda>j. [EvSchedule i, EvFailedAttempt i (payload (run (c + j)))]) [0..<k])"

text \<open>
  The score of the specification, in its words:
  \<open>score = priority + (now - scheduledAt) / 5000\<close>, the priority defaulting to 0.
\<close>

definition score :: "int \<Rightarrow> scheduled_task \<Rightarrow> real" where
  "score now t =
     (case priority t of None \<Rightarrow> 0 | Some p \<Rightarrow> p) + real_of_int (now - scheduled t) / 5000"

text \<open>A scheduler as \<open>new Scheduler()\<close> leaves it; no object has been allocated yet.\<close>

definition blank_task :: scheduled_task where
  "blank_task = new_ScheduledTask \<lparr>task_run = (\<lambda>d k. Returns JUndefined), task_priority = None\<rparr> None 0 0"

definition new_Scheduler :: scheduler where
  "new_Scheduler = \<lparr>heap = (\<lambda>i. blank_task), queue = [], id_counter = 0, events = []\<rparr>"

section \<open>Workers (worker.ts)\<close>

datatype WorkerState = W_IDLE | W_RUNNING | W_STALLED | W_STOPPED

fun worker_state_lower :: "WorkerState \<Rightarrow> string" where
  "worker_state_lower W_IDLE = ''idle''"
| "worker_state_lower W_RUNNING = ''running''"
| "worker_state_lower W_STALLED = ''stalled''"
| "worker_state_lower W_STOPPED = ''stopped''"

text \<open>
  The class \<open>Worker\<close>: \<open>w_state\<close> is \<open>_state\<close>, \<open>stall\<close> the handle of the pending stall timer,
  \<open>wake_armed\<close> says that \<open>_wakeFunction\<close> is the resolver of a stall promise and not \<open>NOOP\<close>.
  The asynchronous loop \<open>_main\<close> runs in the event loop; the model has its synchronous part
  (up to its first suspension) and the callback that runs when it has ended.
\<close>

record worker =
  w_state :: WorkerState
  running :: bool
  stall :: "nat option"
  wake_armed :: bool

definition new_Worker :: worker where
  "new_Worker = \<lparr>w_state = W_STOPPED, running = False, stall = None, wake_armed = False\<rparr>"

definition Worker_wake :: "worker \<Rightarrow> worker" where
  "Worker_wake w = w\<lparr>wake_armed := False\<rparr>"

definition Worker_stop :: "worker \<Rightarrow> (jsvalue + unit) \<times> worker" where
  "Worker_stop w =
     (if \<not> running w
      then (Inl (JError (''Attempted to stop a '' @ worker_state_lower (w_state w) @ '' worker.'')), w)
      else (Inr (), Worker_wake (w\<lparr>stall := None, running := False\<rparr>)))"

definition Worker_tryStop :: "worker \<Rightarrow> bool \<times> worker" where
  "Worker_tryStop w = (if \<not> running w then (False, w) else (True, snd (Worker_stop w)))"

text \<open>The \<open>finally\<close> callback on the promise of \<open>_main\<close>, run once the loop has ended.\<close>

definition Worker_main_finally :: "worker \<Rightarrow> worker" where
  "Worker_main_finally w = w\<lparr>w_state := W_STOPPED, stall := None, running := False\<rparr>"

section \<open>The request pool and the throttle policy (request-pool.ts, throttle-policy.ts)\<close>

text \<open>
  Timers of the event loop that the policy arms: the one-shot timer for the end of the window
  (with its delay) and the recurring wake timer (with its period), in a table by handle.
\<close>

datatype timer_entry = ThrottleExpiry int | WakeInterval int

record throttle_meta =
  until :: "int option"
  timer :: "nat option"
  interval :: "nat option"

record suspend_policy =
  throttleLimit :: "int option"
  rate :: int

record suspend_policy_options =
  opt_throttleLimit :: "int option"
  opt_rate :: "int option"

definition new_SuspendPolicy :: "suspend_policy_options option \<Rightarrow> suspend_policy" where
  "new_SuspendPolicy options =
     \<lparr> throttleLimit = (case options of None \<Rightarrow> None | Some opts \<Rightarrow> opt_throttleLimit opts),
       rate = (case options of None \<Rightarrow> 5000
               | Some opts \<Rightarrow> (case opt_rate opts of None \<Rightarrow> 5000 | Some r \<Rightarrow> r)) \<rparr>"

text \<open>
  The pool with what it owns: its scheduler, its workers (references into \<open>wheap\<close>), the cache,
  the throttle metadata, its policy (the default \<open>SuspendPolicy\<close>), and the timer table of the
  event loop. The LRU cache is an external package: it is a finite map here, and an entry it has
  evicted or expired is an absent key.
\<close>

record pool =
  p_scheduler :: scheduler
  wheap :: "nat \<Rightarrow> worker"
  workers :: "nat list"
  next_worker :: nat
  workerLimit :: int
  cache :: "string \<Rightarrow> nat option"
  throttle :: throttle_meta
  policy :: suspend_policy
  timers :: "nat \<Rightarrow> timer_entry option"
  next_timer :: nat

definition set_timer :: "timer_entry \<Rightarrow> pool \<Rightarrow> nat \<times> pool" where
  "set_timer e p = (next_timer p, p\<lparr>timers := (timers p)(next_timer p \<mapsto> e), next_timer := Suc (next_timer p)\<rparr>)"

definition clear_timer :: "nat \<Rightarrow> pool \<Rightarrow> pool" where
  "clear_timer h p = p\<lparr>timers := (timers p)(h := None)\<rparr>"

text \<open>
  \<open>AbstractPolicy.canThrottle\<close>; a throttle signal is given by its \<open>until\<close> (milliseconds).
\<close>

definition canThrottle :: "int \<Rightarrow> pool \<Rightarrow> bool" where
  "canThrottle sig_until p =
     (case until (throttle p) of None \<Rightarrow> True | Some u \<Rightarrow> u > sig_until)"

text \<open>\<open>SuspendPolicy.doThrottle\<close>, up to and including the arming of the expiry timer.\<close>

definition doThrottle :: "int \<Rightarrow> int \<Rightarrow> pool \<Rightarrow> pool" where
  "doThrottle now sig_until p =
     (let p1 = p\<lparr>throttle := (throttle p)\<lparr>until := Some sig_until\<rparr>\<rparr>;
          p2 = (case interval (throttle p1) of None \<Rightarrow> p1
                | Some h \<Rightarrow> (let c = clear_timer h p1 in c\<lparr>throttle := (throttle c)\<lparr>interval := None\<rparr>\<rparr>));
          p3 = (case timer (throttle p2) of None \<Rightarrow> p2
                | Some h \<Rightarrow> (let c = clear_timer h p2 in c\<lparr>throttle := (throttle c)\<lparr>timer := None\<rparr>\<rparr>));
          p4 = p3\<lparr>wheap := fold (\<lambda>w hp. hp(w := snd (Worker_tryStop (hp w)))) (workers p3) (wheap p3)\<rparr>;
          (h, p5) = set_timer (ThrottleExpiry (sig_until - now)) p4
      in p5\<lparr>throttle := (throttle p5)\<lparr>timer := Some h\<rparr>\<rparr>)"

text \<open>
  \<open>AbstractPolicy.throttle\<close>. The clock is read once for the whole synchronous call. The limit
  replaces the signal's \<open>until\<close> before \<open>doThrottle\<close> sees it.
\<close>

definition throttle_signal :: "int \<Rightarrow> int \<Rightarrow> pool \<Rightarrow> pool" where
  "throttle_signal now sig_until p =
     (let ms = sig_until - now in
      if ms \<le> 0 \<or> \<not> canThrottle sig_until p then p
      else
        (let u = (case throttleLimit (policy p) of
                    None \<Rightarrow> sig_until
                  | Some l \<Rightarrow> if ms > l then now + l else sig_until)
         in doThrottle now u p))"

text \<open>\<open>RequestPool._tryThrottle\<close>, the listener of \<open>failedAttempt\<close> and \<open>failedTask\<close>.\<close>

definition tryThrottle :: "int \<Rightarrow> jsvalue \<Rightarrow> pool \<Rightarrow> pool" where
  "tryThrottle now error p =
     (case error of JThrottleError u \<Rightarrow> throttle_signal now u p | _ \<Rightarrow> p)"

definition notify :: "int \<Rightarrow> event \<Rightarrow> pool \<Rightarrow> pool" where
  "notify now ev p =
     (case ev of
        EvFailedAttempt i e \<Rightarrow> tryThrottle now e p
      | EvFailedTask i e \<Rightarrow> tryThrottle now e p
      | EvSchedule i \<Rightarrow> p)"

text \<open>
  A scheduler operation run inside the pool: the listeners are called for every event the
  operation emitted.
\<close>

definition in_pool :: "int \<Rightarrow> (scheduler \<Rightarrow> 'a \<times> scheduler) \<Rightarrow> pool \<Rightarrow> 'a \<times> pool" where
  "in_pool now f p =
     (case f (p_scheduler p) of
        (r, sch) \<Rightarrow>
          (r, fold (notify now) (drop (length (events (p_scheduler p))) (events sch))
                (p\<lparr>p_scheduler := sch\<rparr>)))"

definition set_worker :: "nat \<Rightarrow> (worker \<Rightarrow> worker) \<Rightarrow> pool \<Rightarrow> pool" where
  "set_worker w f p = p\<lparr>wheap := (wheap p)(w := f (wheap p w))\<rparr>"

lemma scheduler_set_timer [simp]: "p_scheduler (snd (set_timer e p)) = p_scheduler p"
  by (simp add: set_timer_def)

lemma scheduler_clear_timer [simp]: "p_scheduler (clear_timer h p) = p_scheduler p"
  by (simp add: clear_timer_def)

lemma scheduler_doThrottle [simp]: "p_scheduler (doThrottle now u p) = p_scheduler p"
  by (simp add: doThrottle_def Let_def set_timer_def split: option.splits prod.splits)

lemma scheduler_notify [simp]: "p_scheduler (notify now ev p) = p_scheduler p"
  by (simp add: notify_def tryThrottle_def throttle_signal_def Let_def split: event.splits jsvalue.splits)

lemma scheduler_fold_notify [simp]: "p_scheduler (fold (notify now) evs p) = p_scheduler p"
  by (induction evs arbitrary: p) simp_all

lemma in_pool_scheduler:
  "fst (in_pool now f p) = fst (f (p_scheduler p))"
  "p_scheduler (snd (in_pool now f p)) = snd (f (p_scheduler p))"
  by (simp_all add: in_pool_def split: prod.splits)

lemma scheduler_set_worker [simp]: "p_scheduler (set_worker w f p) = p_scheduler p"
  by (simp add: set_worker_def)

text \<open>
  The synchronous part of \<open>Worker._main\<close>, from a call or a resumption to the next \<open>await\<close>
  that suspends it (or to its end). When \<open>task.run()\<close> throws synchronously the \<open>catch\<close>
  swallows it and the loop goes on without suspending.
\<close>

function Worker_main :: "nat \<Rightarrow> int \<Rightarrow> pool \<Rightarrow> pool" where
  "Worker_main w now p =
     (if \<not> running (wheap p w) then p
      else if stall (wheap p w) \<noteq> None then set_worker w (\<lambda>x. x\<lparr>w_state := W_STALLED\<rparr>) p
      else
        (case in_pool now (Scheduler_next now) (set_worker w (\<lambda>x. x\<lparr>w_state := W_IDLE\<rparr>) p) of
           (None, p2) \<Rightarrow> p2
         | (Some i, p2) \<Rightarrow>
             (case in_pool now (ScheduledTask_run i) (set_worker w (\<lambda>x. x\<lparr>w_state := W_RUNNING\<rparr>) p2) of
                (Inl e, p4) \<Rightarrow> Worker_main w now p4
              | (Inr r, p4) \<Rightarrow> p4)))"
  by pat_completeness auto
termination
proof (relation "measure (\<lambda>(w, now, p). queue_weight (p_scheduler p))", simp, clarsimp)
  fix w now p p2 i p4 e
  assume nx: "(Some i, p2) = in_pool now (Scheduler_next now) (set_worker w (w_state_update (\<lambda>_. W_IDLE)) p)"
    and rn: "(Inl e, p4) = in_pool now (ScheduledTask_run i) (set_worker w (w_state_update (\<lambda>_. W_RUNNING)) p2)"
  have "Scheduler_next now (p_scheduler p) = (Some i, p_scheduler p2)"
    using in_pool_scheduler [of now "Scheduler_next now" "set_worker w (w_state_update (\<lambda>_. W_IDLE)) p"]
      nx [symmetric] by (simp add: prod_eq_iff)
  from next_weight [OF this]
  have a: "queue_weight (p_scheduler p2) + nat (retries (heap (p_scheduler p) i)) + 1 \<le> queue_weight (p_scheduler p)"
    by simp
  have h: "heap (p_scheduler p2) = heap (p_scheduler p)"
    using next_result [OF \<open>Scheduler_next now (p_scheduler p) = (Some i, p_scheduler p2)\<close>] by simp
  have "p_scheduler p4 = snd (ScheduledTask_run i (p_scheduler p2))"
    using in_pool_scheduler [of now "ScheduledTask_run i" "set_worker w (w_state_update (\<lambda>_. W_RUNNING)) p2"]
      rn [symmetric] by simp
  then have "queue_weight (p_scheduler p4) \<le> queue_weight (p_scheduler p2) + nat (retries (heap (p_scheduler p) i))"
    using weight_run [of i "p_scheduler p2"] h by simp
  with a show "queue_weight (p_scheduler p4) < queue_weight (p_scheduler p)" by simp
qed

declare Worker_main.simps [simp del]

definition Worker_start :: "nat \<Rightarrow> int \<Rightarrow> pool \<Rightarrow> (jsvalue + unit) \<times> pool" where
  "Worker_start w now p =
     (if running (wheap p w) \<and> stall (wheap p w) = None
      then (Inl (JError (''Attempted to start a '' @ worker_state_lower (w_state (wheap p w)) @ '' worker.'')), p)
      else
        (let p1 = set_worker w (\<lambda>x. x\<lparr>stall := None\<rparr>) p;
             p2 = (if \<not> running (wheap p1 w)
                   then Worker_main w now (set_worker w (\<lambda>x. x\<lparr>running := True\<rparr>) p1)
                   else p1)
         in (Inr (), set_worker w Worker_wake p2)))"

definition Worker_tryStart :: "nat \<Rightarrow> int \<Rightarrow> pool \<Rightarrow> bool \<times> pool" where
  "Worker_tryStart w now p =
     (if running (wheap p w) \<and> stall (wheap p w) = None then (False, p)
      else (True, snd (Worker_start w now p)))"

text \<open>
  The closure \<open>wake\<close> of \<open>SuspendPolicy.doThrottle\<close>, and the callback of the expiry timer
  around it.
\<close>

definition throttle_wake :: "int \<Rightarrow> pool \<Rightarrow> pool" where
  "throttle_wake now p =
     (case find (\<lambda>w. w_state (wheap p w) = W_STOPPED) (workers p) of
        Some w \<Rightarrow> snd (Worker_tryStart w now p)
      | None \<Rightarrow>
          (let p1 = (case interval (throttle p) of None \<Rightarrow> p | Some h \<Rightarrow> clear_timer h p)
           in p1\<lparr>throttle := (throttle p1)\<lparr>interval := None\<rparr>\<rparr>))"

definition throttle_expiry :: "int \<Rightarrow> pool \<Rightarrow> pool" where
  "throttle_expiry now p =
     (let p1 = throttle_wake now p;
          p2 = p1\<lparr>throttle := (throttle p1)\<lparr>timer := None\<rparr>\<rparr>;
          (h, p3) = set_timer (WakeInterval (rate (policy p2))) p2
      in p3\<lparr>throttle := (throttle p3)\<lparr>interval := Some h\<rparr>\<rparr>)"

text \<open>
  The event loop fires the timer with handle \<open>h\<close>: a one-shot timer leaves the table and runs
  its callback, a recurring one runs its callback and stays.
\<close>

definition timer_fire :: "nat \<Rightarrow> int \<Rightarrow> pool \<Rightarrow> pool" where
  "timer_fire h now p =
     (case timers p h of
        None \<Rightarrow> p
      | Some (ThrottleExpiry d) \<Rightarrow> throttle_expiry now (clear_timer h p)
      | Some (WakeInterval r) \<Rightarrow> throttle_wake now p)"

text \<open>\<open>RequestPool.setWorkerLimit\<close> and the constructor.\<close>

fun add_workers :: "nat \<Rightarrow> int \<Rightarrow> pool \<Rightarrow> pool" where
  "add_workers 0 now p = p"
| "add_workers (Suc k) now p =
     (let w = next_worker p;
          p1 = p\<lparr>wheap := (wheap p)(w := new_Worker), next_worker := Suc w\<rparr>;
          p2 = snd (Worker_tryStart w now p1)
      in add_workers k now (p2\<lparr>workers := workers p2 @ [w]\<rparr>))"

definition setWorkerLimit :: "int \<Rightarrow> int \<Rightarrow> pool \<Rightarrow> pool" where
  "setWorkerLimit now limit p =
     (let n = int (length (workers p));
          p1 = (if limit < n then
                  (let start = (if limit < 0 then max (n + limit) 0 else limit);
                       removed = drop (nat start) (workers p);
                       pa = p\<lparr>workers := take (nat start) (workers p)\<rparr>
                   in pa\<lparr>wheap := fold (\<lambda>w hp. hp(w := snd (Worker_tryStop (hp w)))) removed (wheap pa)\<rparr>)
                else if limit > n then add_workers (nat (limit - n)) now p
                else p)
      in p1\<lparr>workerLimit := limit\<rparr>)"

record request_pool_options =
  opt_policy :: "suspend_policy option"
  opt_workers :: "int option"

definition new_RequestPool :: "int \<Rightarrow> request_pool_options option \<Rightarrow> pool" where
  "new_RequestPool now options =
     (let limit = (case options of None \<Rightarrow> 5
                   | Some opts \<Rightarrow> (case opt_workers opts of None \<Rightarrow> 5 | Some n \<Rightarrow> n));
          p0 = \<lparr> p_scheduler = new_Scheduler,
                 wheap = (\<lambda>w. new_Worker),
                 workers = [],
                 next_worker = 0,
                 workerLimit = limit,
                 cache = (\<lambda>k. None),
                 throttle = \<lparr>until = None, timer = None, interval = None\<rparr>,
                 policy = (case options of None \<Rightarrow> new_SuspendPolicy None
                           | Some opts \<Rightarrow> (case opt_policy opts of None \<Rightarrow> new_SuspendPolicy None
                                           | Some pol \<Rightarrow> pol)),
                 timers = (\<lambda>h. None),
                 next_timer = 0 \<rparr>
      in setWorkerLimit now limit p0)"

text \<open>
  A \<open>Request\<close> (request.ts): its cache key, the two options, and \<open>run\<close>, which is
  asynchronous: each invocation returns a promise that rejects (\<open>Inl\<close>) or fulfils (\<open>Inr\<close>).
\<close>

record request =
  req_key :: string
  cacheable :: bool
  req_retries :: int
  req_run :: "nat \<Rightarrow> jsvalue + jsvalue"

definition request_task :: "request \<Rightarrow> task" where
  "request_task r =
     \<lparr> task_run = (\<lambda>d k. case req_run r k of Inl e \<Rightarrow> AsyncRejects e | Inr v \<Rightarrow> AsyncResolves v),
       task_priority = None \<rparr>"

text \<open>\<open>RequestPool.request\<close>, given the constructed request instance.\<close>

definition RequestPool_request :: "int \<Rightarrow> request \<Rightarrow> pool \<Rightarrow> nat \<times> pool" where
  "RequestPool_request now inst p =
     (let cacheKey = req_key inst;
          hit = (if cacheable inst then
                   (case cache p cacheKey of
                      None \<Rightarrow> None
                    | Some cached \<Rightarrow>
                        if \<not> (state (heap (p_scheduler p) cached) = FAILED
                                \<or> state (heap (p_scheduler p) cached) \<noteq> CANCELLED)
                        then Some cached else None)
                 else None)
      in case hit of
           Some cached \<Rightarrow> (cached, p)
         | None \<Rightarrow>
             (let (scheduled_t, p1) =
                    in_pool now (Scheduler_schedule now (request_task inst)
                      (Some \<lparr>opt_priority = None, opt_retries = Some (req_retries inst), opt_data = None\<rparr>)) p;
                  p2 = (if cacheable inst then p1\<lparr>cache := (cache p1)(cacheKey \<mapsto> scheduled_t)\<rparr> else p1)
              in (scheduled_t, p2)))"

section \<open>Operations on a scheduler\<close>

text \<open>
  Everything that can happen to the tasks of a scheduler: the public operations, the methods of a
  task, and the completion callbacks \<open>_finishSuccess\<close> and \<open>_finishError\<close>, at any moment
  and for any task.
\<close>

datatype op =
    OpSchedule task "schedule_options option"
  | OpCancel nat
  | OpTaskCancel nat
  | OpNext
  | OpRun nat
  | OpFinishSuccess nat jsvalue
  | OpFinishError nat jsvalue
  | OpThen nat nat

fun apply_op :: "int \<Rightarrow> op \<Rightarrow> scheduler \<Rightarrow> scheduler" where
  "apply_op now (OpSchedule tk options) s = snd (Scheduler_schedule now tk options s)"
| "apply_op now (OpCancel i) s = snd (Scheduler_cancel i s)"
| "apply_op now (OpTaskCancel i) s = snd (ScheduledTask_cancel i s)"
| "apply_op now OpNext s = snd (Scheduler_next now s)"
| "apply_op now (OpRun i) s = snd (ScheduledTask_run i s)"
| "apply_op now (OpFinishSuccess i v) s = finishSuccess i v s"
| "apply_op now (OpFinishError i e) s = finishError i e s"
| "apply_op now (OpThen i h) s = update_task i (ScheduledTask_then h) s"

fun apply_ops :: "(int \<times> op) list \<Rightarrow> scheduler \<Rightarrow> scheduler" where
  "apply_ops [] s = s"
| "apply_ops ((now, x) # xs) s = apply_ops xs (apply_op now x s)"

section \<open>Example tasks and schedulers\<close>

definition ex_async_task :: task where
  "ex_async_task = \<lparr>task_run = (\<lambda>d k. AsyncResolves (JStr ''done'')), task_priority = None\<rparr>"

definition ex_sync_task :: task where
  "ex_sync_task = \<lparr>task_run = (\<lambda>d k. Returns (JStr ''Hello'')), task_priority = None\<rparr>"

definition ex_failing_task :: task where
  "ex_failing_task = \<lparr>task_run = (\<lambda>d k. Throws (JError ''boom'')), task_priority = None\<rparr>"

definition retry_options :: "int \<Rightarrow> schedule_options option" where
  "retry_options n = Some \<lparr>opt_priority = None, opt_retries = Some n, opt_data = None\<rparr>"

definition priority_options :: "real \<Rightarrow> schedule_options option" where
  "priority_options x = Some \<lparr>opt_priority = Some x, opt_retries = None, opt_data = None\<rparr>"

text \<open>One asynchronous task, scheduled at time 0 and started: it is RUNNING.\<close>

definition ex_running :: scheduler where
  "ex_running = snd (ScheduledTask_run 0 (snd (Scheduler_schedule 0 ex_async_task None new_Scheduler)))"

text \<open>One task, scheduled at time 0 and cancelled.\<close>

definition ex_cancelled :: scheduler where
  "ex_cancelled = snd (Scheduler_cancel 0 (snd (Scheduler_schedule 0 ex_async_task None new_Scheduler)))"

text \<open>
  A task that always throws, scheduled at time 0 with one retry; a worker takes it at time 1000
  and its first attempt fails.
\<close>

definition ex_requeued :: scheduler where
  "ex_requeued =
     dispatch_turn 1000 (snd (Scheduler_schedule 0 ex_failing_task (retry_options 1) new_Scheduler))"

text \<open>Two tasks scheduled at the same instant 7, the first with priority 0, the second with 5.\<close>

definition ex_two :: scheduler where
  "ex_two =
     snd (Scheduler_schedule 7 ex_sync_task (priority_options 5)
       (snd (Scheduler_schedule 7 ex_sync_task (priority_options 0) new_Scheduler)))"

text \<open>Two tasks scheduled at time 0; the first is then cancelled.\<close>

definition ex_one_cancelled :: scheduler where
  "ex_one_cancelled =
     snd (Scheduler_cancel 0
       (snd (Scheduler_schedule 0 ex_sync_task None
         (snd (Scheduler_schedule 0 ex_sync_task None new_Scheduler)))))"

section \<open>Notions used in the statements, and further examples\<close>

text \<open>A pool created at time 0 with no workers, so that nothing is dispatched behind the scenes.\<close>

definition ex_pool0 :: pool where
  "ex_pool0 = new_RequestPool 0 (Some \<lparr>opt_policy = None, opt_workers = Some 0\<rparr>)"

text \<open>The pool after a throttle signal for time 100 arrived at time 0.\<close>

definition ex_throttled :: pool where
  "ex_throttled = throttle_signal 0 100 ex_pool0"

text \<open>A cacheable request without retries.\<close>

definition ex_request :: request where
  "ex_request = \<lparr>req_key = ''GET /a'', cacheable = True, req_retries = 0,
                  req_run = (\<lambda>k. Inr (JStr ''body''))\<rparr>"

text \<open>The pool after a first request for \<open>ex_request\<close>, made at time 1.\<close>

definition ex_pool_cached :: pool where
  "ex_pool_cached = snd (RequestPool_request 1 ex_request ex_pool0)"

text \<open>A synchronous task, scheduled at time 0 and run by a worker at time 1: it is COMPLETED.\<close>

definition ex_completed :: scheduler where
  "ex_completed = dispatch_turn 1 (snd (Scheduler_schedule 0 ex_sync_task None new_Scheduler))"

text \<open>A task that throws, scheduled without retries and run at time 1: it is FAILED.\<close>

definition ex_failed :: scheduler where
  "ex_failed = dispatch_turn 1 (snd (Scheduler_schedule 0 ex_failing_task None new_Scheduler))"

text \<open>The same two runs, with a continuation 3 attached to the task before the worker takes it.\<close>

definition ex_completed_observed :: scheduler where
  "ex_completed_observed =
     dispatch_turn 1 (update_task 0 (ScheduledTask_then 3)
       (snd (Scheduler_schedule 0 ex_sync_task None new_Scheduler)))"

text \<open>
  What one operation may do to the two counters of a task, from \<open>t\<close> before to \<open>t'\<close>
  after: nothing, or (the retry branch of \<open>_finishError\<close>) one retry less and one attempt
  more, the task QUEUED again.
\<close>

definition counters_step :: "scheduled_task \<Rightarrow> scheduled_task \<Rightarrow> bool" where
  "counters_step t t' \<longleftrightarrow>
     (retries t' = retries t \<and> attempt t' = attempt t)
     \<or> (retries t > 0 \<and> retries t' = retries t - 1 \<and> attempt t' = attempt t + 1 \<and> state t' = QUEUED)"

text \<open>The retry budget \<open>N\<close> that the options of \<open>schedule\<close> ask for (0 when absent).\<close>

definition requested_retries :: "schedule_options option \<Rightarrow> int" where
  "requested_retries options =
     (case options of None \<Rightarrow> 0
      | Some opts \<Rightarrow> (case opt_retries opts of None \<Rightarrow> 0 | Some r \<Rightarrow> r))"

text \<open>The task an event is about.\<close>

fun event_task :: "event \<Rightarrow> nat" where
  "event_task (EvSchedule i) = i"
| "event_task (EvFailedTask i e) = i"
| "event_task (EvFailedAttempt i e) = i"

text \<open>The events of a scheduler that are about task \<open>i\<close>, in order.\<close>

definition events_of :: "nat \<Rightarrow> scheduler \<Rightarrow> event list" where
  "events_of i s = filter (\<lambda>e. event_task e = i) (events s)"

text \<open>
  Where a task \<open>i\<close> that started as \<open>t0\<close> (with the events \<open>ev0\<close> about it) stands while it
  is retried, and when it has failed for good. \<open>k\<close> is the number of retries used.
\<close>

definition retry_state :: "nat \<Rightarrow> scheduled_task \<Rightarrow> event list \<Rightarrow> scheduler \<Rightarrow> bool" where
  "retry_state i t0 ev0 s \<longleftrightarrow>
     state (heap s i) = QUEUED
     \<and> the_task (heap s i) = the_task t0 \<and> data (heap s i) = data t0
     \<and> promise (heap s i) = promise t0
     \<and> 0 \<le> retries (heap s i) \<and> retries (heap s i) \<le> retries t0
     \<and> calls (heap s i) = calls t0 + nat (retries t0 - retries (heap s i))
     \<and> attempt (heap s i) = attempt t0 + (retries t0 - retries (heap s i))
     \<and> events_of i s = ev0 @ failing_trace i (task_run (the_task t0) (data t0)) (calls t0)
                               (nat (retries t0 - retries (heap s i)))"

definition retrying :: "nat \<Rightarrow> scheduled_task \<Rightarrow> event list \<Rightarrow> scheduler \<Rightarrow> bool" where
  "retrying i t0 ev0 s \<longleftrightarrow> retry_state i t0 ev0 s \<and> i \<in> set (queue s)"

definition last_error :: "scheduled_task \<Rightarrow> jsvalue" where
  "last_error t0 = payload (task_run (the_task t0) (data t0) (calls t0 + nat (retries t0)))"

definition failed_for_good :: "nat \<Rightarrow> scheduled_task \<Rightarrow> event list \<Rightarrow> scheduler \<Rightarrow> bool" where
  "failed_for_good i t0 ev0 s \<longleftrightarrow>
     state (heap s i) = FAILED
     \<and> retries (heap s i) = 0
     \<and> calls (heap s i) = calls t0 + nat (retries t0) + 1
     \<and> attempt (heap s i) = attempt t0 + retries t0
     \<and> promise (heap s i) = promise (task_reject (last_error t0) t0)
     \<and> events_of i s = ev0 @ failing_trace i (task_run (the_task t0) (data t0)) (calls t0)
                               (nat (retries t0))
                           @ [EvFailedTask i (last_error t0)]"

text \<open>
  A task that always throws, scheduled at time 0 with \<open>n\<close> retries, and observed: a
  continuation 3 is attached before any worker takes it.
\<close>

definition ex_retry :: "int \<Rightarrow> scheduler" where
  "ex_retry n =
     update_task 0 (ScheduledTask_then 3)
       (snd (Scheduler_schedule 0 ex_failing_task (retry_options n) new_Scheduler))"

text \<open>
  The same task, scheduled at time 0 with two retries, to which nothing attaches a continuation.
\<close>

definition ex_unobserved :: scheduler where
  "ex_unobserved = snd (Scheduler_schedule 0 ex_failing_task (retry_options 2) new_Scheduler)"

text \<open>
  An executor that throws synchronously. The tasks of a request pool are requests, whose
  \<open>run\<close> is asynchronous, so that their executors never do.
\<close>

fun throws_sync :: "outcome \<Rightarrow> bool" where
  "throws_sync (Throws e) = True"
| "throws_sync (Returns v) = False"
| "throws_sync (AsyncResolves v) = False"
| "throws_sync (AsyncRejects e) = False"

definition no_sync_throw :: "scheduler \<Rightarrow> bool" where
  "no_sync_throw s \<longleftrightarrow>
     (\<forall>i \<in> set (queue s). \<forall>k. \<not> throws_sync (task_run (the_task (heap s i)) (data (heap s i)) k))"

text \<open>
  A pool of two workers, created at time 0 on an empty queue: both workers are started and wait,
  IDLE, for a task. Then a throttle signal for time 10000 arrives at time 0.
\<close>

definition ex_pool2 :: pool where
  "ex_pool2 = new_RequestPool 0 (Some \<lparr>opt_policy = None, opt_workers = Some 2\<rparr>)"

definition ex_suspended :: pool where
  "ex_suspended = throttle_signal 0 10000 ex_pool2"

section \<open>Properties\<close>

lemma next_pop_queued:
  assumes "pq_pop (\<lambda>a b. Scheduler_compare now (heap s a) (heap s b)) (queue s) = Some (i, q')"
    and "state (heap s i) = QUEUED"
  shows "Scheduler_next now s = (Some i, s\<lparr>queue := q'\<rparr>)"
  using assms by (simp add: Scheduler_next.simps [of now s])

lemma next_pop_skip:
  assumes "pq_pop (\<lambda>a b. Scheduler_compare now (heap s a) (heap s b)) (queue s) = Some (i, q')"
    and "state (heap s i) \<noteq> QUEUED"
  shows "Scheduler_next now s = Scheduler_next now (s\<lparr>queue := q'\<rparr>)"
  using assms by (simp add: Scheduler_next.simps [of now s])

lemma next_empty: "queue s = [] \<Longrightarrow> Scheduler_next now s = (None, s)"
  by (simp add: Scheduler_next.simps [of now s] pq_pop_def)

lemma next_single:
  "queue s = [i] \<Longrightarrow> state (heap s i) = QUEUED \<Longrightarrow> Scheduler_next now s = (Some i, s\<lparr>queue := []\<rparr>)"
  by (simp add: Scheduler_next.simps [of now s] pq_pop_def)

lemma compare_score: "Scheduler_compare now a b = score now a - score now b"
  by (simp add: Scheduler_compare_def calculate_def summary_def score_def Let_def)

lemma next_two:
  assumes "queue s = [a, b] \<or> queue s = [b, a]" "a \<noteq> b"
    "state (heap s a) = QUEUED"
    "score now (heap s a) > score now (heap s b)"
  shows "Scheduler_next now s = (Some a, s\<lparr>queue := [b]\<rparr>)"
  using assms
  by (auto simp: Scheduler_next.simps [of now s] pq_pop_def compare_score Let_def)

lemma ex_two_fields:
  "queue ex_two = [0, 1]"
  "state (heap ex_two 0) = QUEUED" "state (heap ex_two (Suc 0)) = QUEUED"
  "priority (heap ex_two 0) = Some 0" "priority (heap ex_two (Suc 0)) = Some 5"
  "scheduled (heap ex_two 0) = 7" "scheduled (heap ex_two (Suc 0)) = 7"
  by (simp_all add: ex_two_def Scheduler_schedule_def new_Scheduler_def new_ScheduledTask_def
      priority_options_def emit_def pq_push_def Let_def)

text \<open>
  C7. \<open>Scheduler.compare(first, second)\<close> is positive exactly when the score of \<open>first\<close>,
  priority (0 when absent) plus (now - scheduledAt) / 5000, exceeds that of \<open>second\<close>; and when
  the queue holds two QUEUED tasks scheduled at the same instant, one with priority 5 and one
  with priority 0, \<open>next()\<close> returns the one with priority 5 and leaves the other queued.
\<close>

theorem C7_compare_is_score_order:
  "(Scheduler_compare now first second > 0 \<longleftrightarrow> score now first > score now second)
   \<and> ((queue s = [a, b] \<or> queue s = [b, a]) \<and> a \<noteq> b
        \<and> state (heap s a) = QUEUED \<and> state (heap s b) = QUEUED
        \<and> priority (heap s a) = Some 5 \<and> priority (heap s b) = Some 0
        \<and> scheduled (heap s a) = scheduled (heap s b)
      \<longrightarrow> fst (Scheduler_next now' s) = Some a
          \<and> queue (snd (Scheduler_next now' s)) = [b]
          \<and> fst (Scheduler_next now'' (snd (Scheduler_next now' s))) = Some b)"
proof (intro conjI impI)
  show "Scheduler_compare now first second > 0 \<longleftrightarrow> score now first > score now second"
    by (simp add: compare_score)
next
  assume h: "(queue s = [a, b] \<or> queue s = [b, a]) \<and> a \<noteq> b
        \<and> state (heap s a) = QUEUED \<and> state (heap s b) = QUEUED
        \<and> priority (heap s a) = Some 5 \<and> priority (heap s b) = Some 0
        \<and> scheduled (heap s a) = scheduled (heap s b)"
  then have "score now' (heap s a) > score now' (heap s b)"
    by (simp add: score_def)
  with h have nx: "Scheduler_next now' s = (Some a, s\<lparr>queue := [b]\<rparr>)"
    by (intro next_two) simp_all
  show "fst (Scheduler_next now' s) = Some a" by (simp add: nx)
  show "queue (snd (Scheduler_next now' s)) = [b]" by (simp add: nx)
  show "fst (Scheduler_next now'' (snd (Scheduler_next now' s))) = Some b"
    using h by (simp add: nx next_single)
qed

theorem C7_witness:
  "fst (Scheduler_next 1000 ex_two) = Some 1
   \<and> queue (snd (Scheduler_next 1000 ex_two)) = [0]
   \<and> fst (Scheduler_next 2000 (snd (Scheduler_next 1000 ex_two))) = Some 0"
  using C7_compare_is_score_order [of 0 "heap ex_two 0" "heap ex_two 1" ex_two 1 0 1000 2000]
  by (simp add: ex_two_fields)

text \<open>
  C8. \<open>next()\<close> returns \<open>null\<close> exactly when the queue holds no QUEUED task (so on an empty
  queue), and the queue is then empty; otherwise it returns a task that is QUEUED and was in the
  queue, removes it, and removes besides it only entries that are not QUEUED. It changes no task.
\<close>

theorem C8_next_returns_queued_or_null:
  "(fst (Scheduler_next now s) = None \<longleftrightarrow> (\<forall>i \<in> set (queue s). state (heap s i) \<noteq> QUEUED))
   \<and> (fst (Scheduler_next now s) = None \<longrightarrow> queue (snd (Scheduler_next now s)) = [])
   \<and> (queue s = [] \<longrightarrow> Scheduler_next now s = (None, s))
   \<and> (\<forall>i. fst (Scheduler_next now s) = Some i \<longrightarrow>
          state (heap s i) = QUEUED \<and> i \<in> set (queue s)
          \<and> (\<exists>D. mset (queue s) = mset (queue (snd (Scheduler_next now s))) + {#i#} + D
                 \<and> (\<forall>j \<in># D. state (heap s j) \<noteq> QUEUED)))
   \<and> heap (snd (Scheduler_next now s)) = heap s"
proof -
  obtain r s' where nx: "Scheduler_next now s = (r, s')"
    by (cases "Scheduler_next now s")
  note res = next_result [OF nx]
  have a: "r = None \<longleftrightarrow> (\<forall>i \<in> set (queue s). state (heap s i) \<noteq> QUEUED)"
  proof (cases r)
    case None
    with res show ?thesis by simp
  next
    case (Some i)
    with res obtain D where q: "state (heap s i) = QUEUED"
      and D: "mset (queue s) = mset (queue s') + {#i#} + D" by auto
    from D have "i \<in> set (queue s)"
      by (metis mset_eq_setD set_mset_mset union_iff union_single_eq_member)
    with q Some show ?thesis by auto
  qed
  have b: "r = None \<longrightarrow> queue s' = []" using res by auto
  have c: "\<forall>i. r = Some i \<longrightarrow> state (heap s i) = QUEUED \<and> i \<in> set (queue s)
          \<and> (\<exists>D. mset (queue s) = mset (queue s') + {#i#} + D
                 \<and> (\<forall>j \<in># D. state (heap s j) \<noteq> QUEUED))"
  proof (intro allI impI)
    fix i assume r: "r = Some i"
    with res obtain D where D: "state (heap s i) = QUEUED"
      "mset (queue s) = mset (queue s') + {#i#} + D" "\<forall>j \<in># D. state (heap s j) \<noteq> QUEUED" by auto
    then have "i \<in> set (queue s)"
      by (metis mset_eq_setD set_mset_mset union_iff union_single_eq_member)
    with D show "state (heap s i) = QUEUED \<and> i \<in> set (queue s)
          \<and> (\<exists>D. mset (queue s) = mset (queue s') + {#i#} + D
                 \<and> (\<forall>j \<in># D. state (heap s j) \<noteq> QUEUED))" by blast
  qed
  have d: "heap s' = heap s" using res by simp
  have e: "queue s = [] \<longrightarrow> (r, s') = (None, s)"
    using nx next_empty [of s now] by auto
  show ?thesis
    unfolding nx fst_conv snd_conv using a b c d e by blast
qed

lemma ex_one_cancelled_fields:
  "queue ex_one_cancelled = [0, Suc 0]"
  "state (heap ex_one_cancelled 0) = CANCELLED"
  "state (heap ex_one_cancelled (Suc 0)) = QUEUED"
  "priority (heap ex_one_cancelled 0) = None" "priority (heap ex_one_cancelled (Suc 0)) = None"
  "scheduled (heap ex_one_cancelled 0) = 0" "scheduled (heap ex_one_cancelled (Suc 0)) = 0"
  by (simp_all add: ex_one_cancelled_def Scheduler_schedule_def new_Scheduler_def
      new_ScheduledTask_def emit_def pq_push_def Let_def Scheduler_cancel.simps
      ScheduledTask_cancel.simps update_task_def task_reject_def ex_sync_task_def)

lemma ex_one_cancelled_next:
  "Scheduler_next now ex_one_cancelled = (Some (Suc 0), ex_one_cancelled\<lparr>queue := []\<rparr>)"
proof -
  have "Scheduler_next now ex_one_cancelled = Scheduler_next now (ex_one_cancelled\<lparr>queue := [Suc 0]\<rparr>)"
    by (rule next_pop_skip [where i = 0])
       (simp_all add: ex_one_cancelled_fields pq_pop_def Let_def compare_score score_def)
  also have "\<dots> = (Some (Suc 0), ex_one_cancelled\<lparr>queue := []\<rparr>)"
    using next_single [of "ex_one_cancelled\<lparr>queue := [Suc 0]\<rparr>" "Suc 0" now]
    by (simp add: ex_one_cancelled_fields)
  finally show ?thesis .
qed

theorem C8_witness:
  "fst (Scheduler_next 5 ex_one_cancelled) = Some 1
   \<and> state (heap ex_one_cancelled 1) = QUEUED
   \<and> state (heap ex_one_cancelled 0) = CANCELLED
   \<and> fst (Scheduler_next 6 (snd (Scheduler_next 5 ex_one_cancelled))) = None
   \<and> queue (snd (Scheduler_next 6 (snd (Scheduler_next 5 ex_one_cancelled)))) = []
   \<and> Scheduler_next 7 new_Scheduler = (None, new_Scheduler)"
  using C8_next_returns_queued_or_null [of 5 ex_one_cancelled]
    C8_next_returns_queued_or_null [of 6 "snd (Scheduler_next 5 ex_one_cancelled)"]
    C8_next_returns_queued_or_null [of 7 new_Scheduler]
  by (simp add: ex_one_cancelled_next ex_one_cancelled_fields new_Scheduler_def next_empty)

lemma cancel_cancelled: "state (heap s i) = CANCELLED \<Longrightarrow> Scheduler_cancel i s = (Inr (), s)"
  by (simp add: Scheduler_cancel.simps)

lemma cancel_not_queued:
  "state (heap s i) \<noteq> QUEUED \<Longrightarrow> state (heap s i) \<noteq> CANCELLED \<Longrightarrow>
   Scheduler_cancel i s =
     (Inl (JError (''Attempted to cancel a '' @ state_lower (state (heap s i)) @ '' task.'')), s)"
  by (simp add: Scheduler_cancel.simps ScheduledTask_cancel.simps)

lemma cancel_queued:
  "state (heap s i) = QUEUED \<Longrightarrow>
   Scheduler_cancel i s =
     (Inr (), update_task i (task_reject (JError ''Event cancelled.''))
                (update_task i (\<lambda>t. t\<lparr>state := CANCELLED\<rparr>) s))"
  by (simp add: Scheduler_cancel.simps ScheduledTask_cancel.simps update_task_def)

lemma ex_running_state: "state (heap ex_running 0) = RUNNING"
  by (simp add: ex_running_def ex_async_task_def Scheduler_schedule_def new_Scheduler_def
      new_ScheduledTask_def emit_def pq_push_def Let_def ScheduledTask_run_def update_task_def)

lemma ex_cancelled_state: "state (heap ex_cancelled 0) = CANCELLED"
  by (simp add: ex_cancelled_def Scheduler_schedule_def new_Scheduler_def
      new_ScheduledTask_def emit_def pq_push_def Let_def Scheduler_cancel.simps
      ScheduledTask_cancel.simps update_task_def task_reject_def)

text \<open>
  C3, as stated, fails: for a RUNNING task \<open>Scheduler.cancel\<close> does not return normally, it
  throws the invalid-state error of the task's own \<open>cancel\<close>.
\<close>

theorem C3_counterexample:
  "state (heap ex_running 0) = RUNNING
   \<and> fst (Scheduler_cancel 0 ex_running) = Inl (JError ''Attempted to cancel a running task.'')"
  by (simp add: ex_running_state cancel_not_queued)

text \<open>
  C3, amended. \<open>Scheduler.cancel(task)\<close> leaves the state of a task that is not QUEUED
  unchanged. It returns normally only when the task is already CANCELLED; for a RUNNING,
  COMPLETED or FAILED task it throws the error "Attempted to cancel a (state) task." raised by
  \<open>ScheduledTask.cancel\<close>.
\<close>

theorem C3_cancel_not_queued:
  "(state (heap s i) = CANCELLED \<longrightarrow> Scheduler_cancel i s = (Inr (), s))
   \<and> (state (heap s i) \<in> {RUNNING, COMPLETED, FAILED} \<longrightarrow>
        Scheduler_cancel i s =
          (Inl (JError (''Attempted to cancel a '' @ state_lower (state (heap s i)) @ '' task.'')), s))
   \<and> (state (heap s i) \<noteq> QUEUED \<longrightarrow> snd (Scheduler_cancel i s) = s)"
proof (intro conjI impI)
  assume "state (heap s i) = CANCELLED"
  then show "Scheduler_cancel i s = (Inr (), s)" by (rule cancel_cancelled)
next
  assume "state (heap s i) \<in> {RUNNING, COMPLETED, FAILED}"
  then have "state (heap s i) \<noteq> QUEUED" "state (heap s i) \<noteq> CANCELLED" by auto
  then show "Scheduler_cancel i s =
          (Inl (JError (''Attempted to cancel a '' @ state_lower (state (heap s i)) @ '' task.'')), s)"
    by (rule cancel_not_queued)
next
  assume nq: "state (heap s i) \<noteq> QUEUED"
  show "snd (Scheduler_cancel i s) = s"
  proof (cases "state (heap s i) = CANCELLED")
    case True
    then show ?thesis by (simp add: cancel_cancelled)
  next
    case False
    with nq show ?thesis by (simp add: cancel_not_queued)
  qed
qed

theorem C3_witness:
  "Scheduler_cancel 0 ex_cancelled = (Inr (), ex_cancelled)
   \<and> Scheduler_cancel 0 ex_running = (Inl (JError ''Attempted to cancel a running task.''), ex_running)
   \<and> snd (Scheduler_cancel 0 ex_running) = ex_running"
  using C3_cancel_not_queued [of ex_cancelled 0] C3_cancel_not_queued [of ex_running 0]
  by (simp add: ex_running_state ex_cancelled_state)

lemma finishError_retry:
  assumes "retries (heap s i) > 0"
  shows "queue (finishError i e s) = queue s @ [i]"
    "events (finishError i e s) = events s @ [EvSchedule i, EvFailedAttempt i e]"
    "id_counter (finishError i e s) = id_counter s"
    "heap (finishError i e s) = (heap s)(i := (heap s i)\<lparr>state := QUEUED, retries := retries (heap s i) - 1, attempt := attempt (heap s i) + 1\<rparr>)"
  using assms
  by (simp_all add: finishError_def Let_def update_task_def emit_def Scheduler_reschedule_def pq_push_def)

lemma finishError_final:
  assumes "\<not> retries (heap s i) > 0"
  shows "queue (finishError i e s) = queue s"
    "events (finishError i e s) = events s @ [EvFailedTask i e]"
    "id_counter (finishError i e s) = id_counter s"
    "heap (finishError i e s) = (heap s)(i := task_reject e ((heap s i)\<lparr>state := FAILED\<rparr>))"
  using assms
  by (simp_all add: finishError_def Let_def update_task_def emit_def)

lemma finishSuccess_fields:
  "queue (finishSuccess i v s) = queue s"
  "events (finishSuccess i v s) = events s"
  "id_counter (finishSuccess i v s) = id_counter s"
  "heap (finishSuccess i v s) = (heap s)(i := task_resolve v ((heap s i)\<lparr>state := COMPLETED\<rparr>))"
  by (simp_all add: finishSuccess_def Let_def update_task_def)

lemma task_reject_fields [simp]:
  "state (task_reject e t) = state t" "attempt (task_reject e t) = attempt t"
  "calls (task_reject e t) = calls t" "the_task (task_reject e t) = the_task t"
  "data (task_reject e t) = data t" "priority (task_reject e t) = priority t"
  "scheduled (task_reject e t) = scheduled t" "task_id (task_reject e t) = task_id t"
  by (simp_all add: task_reject_def split: option.splits)

lemma task_resolve_fields [simp]:
  "state (task_resolve e t) = state t" "attempt (task_resolve e t) = attempt t"
  "calls (task_resolve e t) = calls t" "the_task (task_resolve e t) = the_task t"
  "data (task_resolve e t) = data t" "priority (task_resolve e t) = priority t"
  "scheduled (task_resolve e t) = scheduled t" "task_id (task_resolve e t) = task_id t"
  by (simp_all add: task_resolve_def split: option.splits)

lemma run_await_fail:
  assumes "state (heap s i) = QUEUED"
    and "is_failure (task_run (the_task (heap s i)) (data (heap s i)) (calls (heap s i)))"
  shows "run_await i s =
     finishError i (payload (task_run (the_task (heap s i)) (data (heap s i)) (calls (heap s i)))) (running_task i s)"
  using assms
  by (cases "task_run (the_task (heap s i)) (data (heap s i)) (calls (heap s i))")
     (simp_all add: run_await_def run_unfold run_callback_def)

lemma ex_failing_scheduled:
  "queue (snd (Scheduler_schedule 0 ex_failing_task (retry_options 1) new_Scheduler)) = [0]"
  "state (heap (snd (Scheduler_schedule 0 ex_failing_task (retry_options 1) new_Scheduler)) 0) = QUEUED"
  "retries (heap (snd (Scheduler_schedule 0 ex_failing_task (retry_options 1) new_Scheduler)) 0) = 1"
  "attempt (heap (snd (Scheduler_schedule 0 ex_failing_task (retry_options 1) new_Scheduler)) 0) = 0"
  "scheduled (heap (snd (Scheduler_schedule 0 ex_failing_task (retry_options 1) new_Scheduler)) 0) = 0"
  "task_run (the_task (heap (snd (Scheduler_schedule 0 ex_failing_task (retry_options 1) new_Scheduler)) 0)) d k
     = Throws (JError ''boom'')"
  by (simp_all add: Scheduler_schedule_def new_Scheduler_def emit_def pq_push_def Let_def
      new_ScheduledTask_def retry_options_def ex_failing_task_def)

lemma ex_requeued_fields:
  "state (heap ex_requeued 0) = QUEUED" "queue ex_requeued = [0]"
  "scheduled (heap ex_requeued 0) = 0" "attempt (heap ex_requeued 0) = 1"
proof -
  define s0 where "s0 = snd (Scheduler_schedule 0 ex_failing_task (retry_options 1) new_Scheduler)"
  note f = ex_failing_scheduled [folded s0_def]
  have nx: "Scheduler_next 1000 s0 = (Some 0, s0\<lparr>queue := []\<rparr>)"
    by (rule next_single) (simp_all add: f)
  have ra: "run_await 0 (s0\<lparr>queue := []\<rparr>) =
      finishError 0 (JError ''boom'') (running_task 0 (s0\<lparr>queue := []\<rparr>))"
    using run_await_fail [of "s0\<lparr>queue := []\<rparr>" 0] by (simp add: f)
  have pos: "retries (heap (running_task 0 (s0\<lparr>queue := []\<rparr>)) 0) > 0"
    by (simp add: running_task_fields f)
  have eq: "ex_requeued = finishError 0 (JError ''boom'') (running_task 0 (s0\<lparr>queue := []\<rparr>))"
    by (simp add: ex_requeued_def s0_def [symmetric] dispatch_turn_def nx ra)
  show "state (heap ex_requeued 0) = QUEUED" "queue ex_requeued = [0]"
    "scheduled (heap ex_requeued 0) = 0" "attempt (heap ex_requeued 0) = 1"
    unfolding eq
    by (simp_all add: finishError_retry [OF pos] running_task_fields f)
qed

text \<open>
  C4, as stated, fails: a task scheduled at time 0 whose attempt fails at time 1000 and is retried
  is back in the queue with \<open>scheduled\<close> still 0, not the current time.
\<close>

theorem C4_counterexample:
  "state (heap ex_requeued 0) = QUEUED \<and> queue ex_requeued = [0]
   \<and> attempt (heap ex_requeued 0) = 1
   \<and> scheduled (heap ex_requeued 0) = 0 \<and> scheduled (heap ex_requeued 0) \<noteq> 1000"
  by (simp add: ex_requeued_fields)

text \<open>
  C4, amended. The internal reschedule reinserts the task into the queue and emits the
  \<open>schedule\<close> event and does nothing else: no task changes, so \<open>scheduled\<close> keeps the time
  of the task's creation; and a failure, retried or terminal, leaves \<open>scheduled\<close> of every task
  as it was.
\<close>

theorem C4_reschedule_keeps_scheduled:
  "queue (Scheduler_reschedule i s) = queue s @ [i]
   \<and> events (Scheduler_reschedule i s) = events s @ [EvSchedule i]
   \<and> heap (Scheduler_reschedule i s) = heap s
   \<and> scheduled (heap (Scheduler_reschedule i s) i) = scheduled (heap s i)
   \<and> scheduled (heap (finishError i e s) j) = scheduled (heap s j)"
proof -
  have "scheduled (heap (finishError i e s) j) = scheduled (heap s j)"
    by (cases "retries (heap s i) > 0") (simp_all add: finishError_retry finishError_final)
  then show ?thesis
    by (simp add: Scheduler_reschedule_def emit_def pq_push_def)
qed

section \<open>The throttle window\<close>

lemma until_doThrottle: "until (throttle (doThrottle now u p)) = Some u"
  by (simp add: doThrottle_def Let_def set_timer_def clear_timer_def split: option.splits prod.splits)

lemma doThrottle_frame:
  "policy (doThrottle now u p) = policy p" "workers (doThrottle now u p) = workers p"
  "cache (doThrottle now u p) = cache p"
  by (simp_all add: doThrottle_def Let_def set_timer_def clear_timer_def
      split: option.splits prod.splits)

lemma throttle_signal_frame:
  "policy (throttle_signal now u p) = policy p" "workers (throttle_signal now u p) = workers p"
  "cache (throttle_signal now u p) = cache p"
  by (simp_all add: throttle_signal_def Let_def doThrottle_frame)

lemma ex_pool0_fields:
  "until (throttle ex_pool0) = None" "throttleLimit (policy ex_pool0) = None"
  "workers ex_pool0 = []" "cache ex_pool0 k = None" "p_scheduler ex_pool0 = new_Scheduler"
  by (simp_all add: ex_pool0_def new_RequestPool_def setWorkerLimit_def Let_def new_SuspendPolicy_def)

lemma ex_throttled_until: "until (throttle ex_throttled) = Some 100"
  by (simp add: ex_throttled_def throttle_signal_def canThrottle_def ex_pool0_fields Let_def
      until_doThrottle)

text \<open>
  C6. \<open>canThrottle(signal, pool)\<close> is true exactly when the pool records no \<open>until\<close> or the
  recorded \<open>until\<close> is strictly later than the signal's; hence \<open>throttle\<close> never moves a
  recorded \<open>until\<close> to a later time: it stays, or it becomes a time that is not later than the
  signal's, which is strictly earlier than the recorded one.
\<close>

theorem C6_canThrottle_only_tightens:
  "(canThrottle u p \<longleftrightarrow>
      (until (throttle p) = None \<or> (\<exists>a. until (throttle p) = Some a \<and> a > u)))
   \<and> (\<forall>a. until (throttle p) = Some a \<longrightarrow>
         (\<exists>b. until (throttle (throttle_signal now u p)) = Some b \<and> b \<le> a
              \<and> (b \<noteq> a \<longrightarrow> canThrottle u p \<and> b \<le> u \<and> u < a)))"
proof (intro conjI allI impI)
  show "canThrottle u p \<longleftrightarrow>
      (until (throttle p) = None \<or> (\<exists>a. until (throttle p) = Some a \<and> a > u))"
    by (cases "until (throttle p)") (simp_all add: canThrottle_def)
next
  fix a assume a: "until (throttle p) = Some a"
  show "\<exists>b. until (throttle (throttle_signal now u p)) = Some b \<and> b \<le> a
              \<and> (b \<noteq> a \<longrightarrow> canThrottle u p \<and> b \<le> u \<and> u < a)"
  proof (cases "u - now \<le> 0 \<or> \<not> canThrottle u p")
    case True
    then have "throttle_signal now u p = p" by (auto simp: throttle_signal_def Let_def)
    with a show ?thesis by simp
  next
    case False
    then have can: "canThrottle u p" and ms: "u - now > 0" by auto
    from can a have lt: "u < a" by (simp add: canThrottle_def)
    define u' where "u' = (case throttleLimit (policy p) of None \<Rightarrow> u
                           | Some l \<Rightarrow> if u - now > l then now + l else u)"
    have "throttle_signal now u p = doThrottle now u' p"
      using False by (simp add: throttle_signal_def Let_def u'_def)
    then have "until (throttle (throttle_signal now u p)) = Some u'"
      by (simp add: until_doThrottle)
    moreover have "u' \<le> u" by (simp add: u'_def split: option.splits)
    ultimately show ?thesis using lt can by auto
  qed
qed

theorem C6_witness:
  "canThrottle 50 ex_throttled \<and> \<not> canThrottle 100 ex_throttled \<and> \<not> canThrottle 200 ex_throttled
   \<and> until (throttle (throttle_signal 10 50 ex_throttled)) = Some 50
   \<and> until (throttle (throttle_signal 10 200 ex_throttled)) = Some 100"
proof -
  have can: "canThrottle 50 ex_throttled" "\<not> canThrottle 100 ex_throttled"
    "\<not> canThrottle 200 ex_throttled"
    using C6_canThrottle_only_tightens [of 50 ex_throttled]
      C6_canThrottle_only_tightens [of 100 ex_throttled]
      C6_canThrottle_only_tightens [of 200 ex_throttled]
    by (simp_all add: ex_throttled_until)
  have lim: "throttleLimit (policy ex_throttled) = None"
    by (simp add: ex_throttled_def throttle_signal_frame ex_pool0_fields)
  have a: "until (throttle (throttle_signal 10 50 ex_throttled)) = Some 50"
    using can(1) by (simp add: throttle_signal_def Let_def lim until_doThrottle)
  have b: "until (throttle (throttle_signal 10 200 ex_throttled)) = Some 100"
    using can(3) by (simp add: throttle_signal_def Let_def ex_throttled_until)
  show ?thesis using can a b by simp
qed

section \<open>The request cache\<close>

lemma in_pool_schedule:
  "in_pool now (Scheduler_schedule t tk options) p =
     (id_counter (p_scheduler p), p\<lparr>p_scheduler := snd (Scheduler_schedule t tk options (p_scheduler p))\<rparr>)"
  by (simp add: in_pool_def Scheduler_schedule_def Let_def emit_def notify_def)

lemma request_miss:
  assumes "\<not> cacheable r \<or> cache p (req_key r) = None
           \<or> (\<exists>c. cache p (req_key r) = Some c \<and> state (heap (p_scheduler p) c) \<noteq> CANCELLED)"
  shows "fst (RequestPool_request now r p) = id_counter (p_scheduler p)"
    and "p_scheduler (snd (RequestPool_request now r p)) =
           snd (Scheduler_schedule now (request_task r)
                  (Some \<lparr>opt_priority = None, opt_retries = Some (req_retries r), opt_data = None\<rparr>)
                  (p_scheduler p))"
    and "cache (snd (RequestPool_request now r p)) =
           (if cacheable r then (cache p)(req_key r \<mapsto> id_counter (p_scheduler p)) else cache p)"
  using assms
  by (auto simp: RequestPool_request_def Let_def in_pool_schedule split: option.splits)

lemma request_hit:
  assumes "cacheable r" "cache p (req_key r) = Some c" "state (heap (p_scheduler p) c) = CANCELLED"
  shows "RequestPool_request now r p = (c, p)"
  using assms by (simp add: RequestPool_request_def Let_def)

lemma ex_pool_cached_fields:
  "fst (RequestPool_request 1 ex_request ex_pool0) = 0"
  "cache ex_pool_cached (req_key ex_request) = Some 0"
  "state (heap (p_scheduler ex_pool_cached) 0) = QUEUED"
  "queue (p_scheduler ex_pool_cached) = [0]"
  "id_counter (p_scheduler ex_pool_cached) = 1"
proof -
  have miss: "\<not> cacheable ex_request \<or> cache ex_pool0 (req_key ex_request) = None
           \<or> (\<exists>c. cache ex_pool0 (req_key ex_request) = Some c
                  \<and> state (heap (p_scheduler ex_pool0) c) \<noteq> CANCELLED)"
    by (simp add: ex_pool0_fields)
  note m = request_miss [OF miss, of 1]
  show "fst (RequestPool_request 1 ex_request ex_pool0) = 0"
    by (simp add: m ex_pool0_fields new_Scheduler_def)
  have "cacheable ex_request" by (simp add: ex_request_def)
  then show "cache ex_pool_cached (req_key ex_request) = Some 0"
    by (simp add: ex_pool_cached_def m ex_pool0_fields new_Scheduler_def)
  show "state (heap (p_scheduler ex_pool_cached) 0) = QUEUED"
    "queue (p_scheduler ex_pool_cached) = [0]"
    "id_counter (p_scheduler ex_pool_cached) = 1"
    by (simp_all add: ex_pool_cached_def m ex_pool0_fields new_Scheduler_def Scheduler_schedule_def
        Let_def emit_def pq_push_def new_ScheduledTask_def)
qed

text \<open>
  C5 on the code. A cacheable request is made twice. At the second call its key maps to the
  cached task of the first, which is QUEUED (neither FAILED nor CANCELLED); the pool does not
  return that handle 0: it schedules a second task and returns the new handle 1.
\<close>

theorem C5_cached_queued_request_is_scheduled_again:
  "fst (RequestPool_request 1 ex_request ex_pool0) = 0
   \<and> cacheable ex_request
   \<and> cache ex_pool_cached (req_key ex_request) = Some 0
   \<and> state (heap (p_scheduler ex_pool_cached) 0) = QUEUED
   \<and> fst (RequestPool_request 2 ex_request ex_pool_cached) = 1
   \<and> queue (p_scheduler (snd (RequestPool_request 2 ex_request ex_pool_cached))) = [0, 1]"
proof -
  have miss: "\<not> cacheable ex_request \<or> cache ex_pool_cached (req_key ex_request) = None
           \<or> (\<exists>c. cache ex_pool_cached (req_key ex_request) = Some c
                  \<and> state (heap (p_scheduler ex_pool_cached) c) \<noteq> CANCELLED)"
    by (simp add: ex_pool_cached_fields)
  note m = request_miss [OF miss, of 2]
  have "queue (p_scheduler (snd (RequestPool_request 2 ex_request ex_pool_cached))) = [0, 1]"
    by (simp add: m Scheduler_schedule_def Let_def emit_def pq_push_def ex_pool_cached_fields)
  moreover have "cacheable ex_request" by (simp add: ex_request_def)
  ultimately show ?thesis
    by (simp add: m ex_pool_cached_fields)
qed

text \<open>
  What the condition of the code selects: among cached entries, exactly the CANCELLED ones are
  returned; for every other state, new work is scheduled.
\<close>

lemma request_returns_cached_iff_cancelled:
  assumes "cacheable r" "cache p (req_key r) = Some c" "c < id_counter (p_scheduler p)"
  shows "fst (RequestPool_request now r p) = c \<longleftrightarrow> state (heap (p_scheduler p) c) = CANCELLED"
proof (cases "state (heap (p_scheduler p) c) = CANCELLED")
  case True
  then show ?thesis using assms by (simp add: request_hit)
next
  case False
  then have "fst (RequestPool_request now r p) = id_counter (p_scheduler p)"
    using assms by (intro request_miss) simp
  with False assms(3) show ?thesis by simp
qed

section \<open>The future of a task\<close>

lemma run_await_success:
  assumes "state (heap s i) = QUEUED"
    and "task_run (the_task (heap s i)) (data (heap s i)) (calls (heap s i)) = Returns v"
  shows "run_await i s = finishSuccess i v (running_task i s)"
  using assms by (simp add: run_await_def run_unfold)

lemma scheduled_once:
  "queue (snd (Scheduler_schedule t tk options new_Scheduler)) = [0]"
  "heap (snd (Scheduler_schedule t tk options new_Scheduler)) 0 = new_ScheduledTask tk options 0 t"
  by (simp_all add: Scheduler_schedule_def new_Scheduler_def emit_def pq_push_def Let_def)

lemma new_task_fields [simp]:
  "state (new_ScheduledTask tk options i t) = QUEUED"
  "promise (new_ScheduledTask tk options i t) = None"
  "attempt (new_ScheduledTask tk options i t) = 0"
  "calls (new_ScheduledTask tk options i t) = 0"
  "the_task (new_ScheduledTask tk options i t) = tk"
  "scheduled (new_ScheduledTask tk options i t) = t"
  "retries (new_ScheduledTask tk None i t) = 0"
  by (simp_all add: new_ScheduledTask_def)

lemma then_fields [simp]:
  "state (ScheduledTask_then h t) = state t" "retries (ScheduledTask_then h t) = retries t"
  "attempt (ScheduledTask_then h t) = attempt t" "calls (ScheduledTask_then h t) = calls t"
  "the_task (ScheduledTask_then h t) = the_task t" "data (ScheduledTask_then h t) = data t"
  by (simp_all add: ScheduledTask_then_def Let_def)

lemma ex_completed_fields:
  "state (heap ex_completed 0) = COMPLETED" "promise (heap ex_completed 0) = None"
proof -
  define s0 where "s0 = snd (Scheduler_schedule 0 ex_sync_task None new_Scheduler)"
  note f = scheduled_once [of 0 ex_sync_task None, folded s0_def]
  have nx: "Scheduler_next 1 s0 = (Some 0, s0\<lparr>queue := []\<rparr>)"
    by (rule next_single) (simp_all add: f)
  have ra: "run_await 0 (s0\<lparr>queue := []\<rparr>) =
      finishSuccess 0 (JStr ''Hello'') (running_task 0 (s0\<lparr>queue := []\<rparr>))"
    by (rule run_await_success) (simp_all add: f ex_sync_task_def)
  have eq: "ex_completed = finishSuccess 0 (JStr ''Hello'') (running_task 0 (s0\<lparr>queue := []\<rparr>))"
    by (simp add: ex_completed_def s0_def [symmetric] dispatch_turn_def nx ra)
  show "state (heap ex_completed 0) = COMPLETED" "promise (heap ex_completed 0) = None"
    unfolding eq by (simp_all add: finishSuccess_fields running_task_fields f task_resolve_def)
qed

lemma ex_failed_fields:
  "state (heap ex_failed 0) = FAILED" "promise (heap ex_failed 0) = None"
proof -
  define s0 where "s0 = snd (Scheduler_schedule 0 ex_failing_task None new_Scheduler)"
  note f = scheduled_once [of 0 ex_failing_task None, folded s0_def]
  have nx: "Scheduler_next 1 s0 = (Some 0, s0\<lparr>queue := []\<rparr>)"
    by (rule next_single) (simp_all add: f)
  have ra: "run_await 0 (s0\<lparr>queue := []\<rparr>) =
      finishError 0 (JError ''boom'') (running_task 0 (s0\<lparr>queue := []\<rparr>))"
    using run_await_fail [of "s0\<lparr>queue := []\<rparr>" 0] by (simp add: f ex_failing_task_def)
  have zero: "\<not> retries (heap (running_task 0 (s0\<lparr>queue := []\<rparr>)) 0) > 0"
    by (simp add: running_task_fields f)
  have eq: "ex_failed = finishError 0 (JError ''boom'') (running_task 0 (s0\<lparr>queue := []\<rparr>))"
    by (simp add: ex_failed_def s0_def [symmetric] dispatch_turn_def nx ra)
  show "state (heap ex_failed 0) = FAILED" "promise (heap ex_failed 0) = None"
    unfolding eq by (simp_all add: finishError_final [OF zero] running_task_fields f task_reject_def)
qed

lemma ex_cancelled_promise: "promise (heap ex_cancelled 0) = None"
  by (simp add: ex_cancelled_def cancel_queued scheduled_once update_task_def task_reject_def)

lemma ex_completed_observed_fields:
  "state (heap ex_completed_observed 0) = COMPLETED"
  "promise (heap ex_completed_observed 0) =
     Some \<lparr>pstate = Resolved (JStr ''Hello''), reactions = [], fired = [(3, Resolved (JStr ''Hello''))]\<rparr>"
proof -
  define s0 where "s0 = update_task 0 (ScheduledTask_then 3)
       (snd (Scheduler_schedule 0 ex_sync_task None new_Scheduler))"
  have f: "queue s0 = [0]" "heap s0 0 = ScheduledTask_then 3 (new_ScheduledTask ex_sync_task None 0 0)"
    by (simp_all add: s0_def update_task_def scheduled_once)
  have nx: "Scheduler_next 1 s0 = (Some 0, s0\<lparr>queue := []\<rparr>)"
    by (rule next_single) (simp_all add: f)
  have ra: "run_await 0 (s0\<lparr>queue := []\<rparr>) =
      finishSuccess 0 (JStr ''Hello'') (running_task 0 (s0\<lparr>queue := []\<rparr>))"
    by (rule run_await_success) (simp_all add: f ex_sync_task_def)
  have eq: "ex_completed_observed = finishSuccess 0 (JStr ''Hello'') (running_task 0 (s0\<lparr>queue := []\<rparr>))"
    by (simp add: ex_completed_observed_def s0_def [symmetric] dispatch_turn_def nx ra)
  show "state (heap ex_completed_observed 0) = COMPLETED"
    unfolding eq by (simp add: finishSuccess_fields running_task_fields f)
  show "promise (heap ex_completed_observed 0) =
     Some \<lparr>pstate = Resolved (JStr ''Hello''), reactions = [], fired = [(3, Resolved (JStr ''Hello''))]\<rparr>"
    unfolding eq
    by (simp add: finishSuccess_fields running_task_fields f task_resolve_def ScheduledTask_then_def
        promise_then_def promise_settle_def Let_def)
qed

text \<open>
  C2 on the code. A continuation 7 is attached to a task that has settled (COMPLETED, FAILED,
  CANCELLED) and had no continuation before. The promise is created only now, pending; the
  continuation is registered and has not fired, and nothing holds the outcome that could fire it.
\<close>

theorem C2_late_continuation_does_not_fire:
  "state (heap ex_completed 0) = COMPLETED
   \<and> promise (ScheduledTask_then 7 (heap ex_completed 0))
       = Some \<lparr>pstate = Pending, reactions = [7], fired = []\<rparr>
   \<and> state (heap ex_failed 0) = FAILED
   \<and> promise (ScheduledTask_then 7 (heap ex_failed 0))
       = Some \<lparr>pstate = Pending, reactions = [7], fired = []\<rparr>
   \<and> state (heap ex_cancelled 0) = CANCELLED
   \<and> promise (ScheduledTask_then 7 (heap ex_cancelled 0))
       = Some \<lparr>pstate = Pending, reactions = [7], fired = []\<rparr>"
  by (simp add: ex_completed_fields ex_failed_fields ex_cancelled_state ex_cancelled_promise
      ScheduledTask_then_def promise_then_def Let_def)

text \<open>
  Where the claim does hold: once the promise exists and is settled, a continuation attached
  later fires at once with the stored outcome. That needs a continuation attached before the
  task settled, as in \<open>ex_completed_observed\<close>.
\<close>

lemma then_on_settled_promise:
  assumes "promise t = Some p" "pstate p \<noteq> Pending"
  shows "promise (ScheduledTask_then h t) = Some (p\<lparr>fired := fired p @ [(h, pstate p)]\<rparr>)"
  using assms by (cases "pstate p") (simp_all add: ScheduledTask_then_def promise_then_def Let_def)

lemma ex_completed_observed_late:
  "promise (ScheduledTask_then 7 (heap ex_completed_observed 0)) =
     Some \<lparr>pstate = Resolved (JStr ''Hello''), reactions = [],
           fired = [(3, Resolved (JStr ''Hello'')), (7, Resolved (JStr ''Hello''))]\<rparr>"
  by (simp add: then_on_settled_promise [OF ex_completed_observed_fields(2)])

section \<open>The retry budget\<close>

lemma cancel_task_queued:
  "state (heap s i) = QUEUED \<Longrightarrow>
   ScheduledTask_cancel i s =
     (Inr (), update_task i (task_reject (JError ''Event cancelled.''))
                (update_task i (\<lambda>t. t\<lparr>state := CANCELLED\<rparr>) s))"
  by (simp add: Scheduler_cancel.simps ScheduledTask_cancel.simps update_task_def)

lemma cancel_task_not_queued:
  "state (heap s i) \<noteq> QUEUED \<Longrightarrow>
   ScheduledTask_cancel i s =
     (Inl (JError (''Attempted to cancel a '' @ state_lower (state (heap s i)) @ '' task.'')), s)"
  by (simp add: ScheduledTask_cancel.simps)

lemma counters_step_refl [simp]: "counters_step t t"
  by (simp add: counters_step_def)

lemma counters_finishSuccess: "counters_step (heap s j) (heap (finishSuccess i v s) j)"
  by (simp add: counters_step_def finishSuccess_fields)

lemma counters_finishError: "counters_step (heap s j) (heap (finishError i e s) j)"
  by (cases "retries (heap s i) > 0")
     (auto simp: counters_step_def finishError_retry finishError_final)

lemma counters_running: "counters_step (heap s j) (heap (running_task i s) j)"
  by (simp add: counters_step_def running_task_fields)

lemma counters_step_trans_same:
  "retries t' = retries t \<Longrightarrow> attempt t' = attempt t \<Longrightarrow> counters_step t' t'' \<Longrightarrow> counters_step t t''"
  by (auto simp: counters_step_def)

lemma counters_run: "counters_step (heap s j) (heap (snd (ScheduledTask_run i s)) j)"
proof (cases "state (heap s i) = QUEUED")
  case False
  then show ?thesis by (simp add: run_wrong_state)
next
  case True
  have same: "retries (heap (running_task i s) j) = retries (heap s j)"
    "attempt (heap (running_task i s) j) = attempt (heap s j)"
    by (simp_all add: running_task_fields)
  have fe: "\<And>e. counters_step (heap s j) (heap (finishError i e (running_task i s)) j)"
    by (rule counters_step_trans_same [OF same]) (rule counters_finishError)
  have fs: "\<And>v. counters_step (heap s j) (heap (finishSuccess i v (running_task i s)) j)"
    by (rule counters_step_trans_same [OF same]) (rule counters_finishSuccess)
  have rt: "counters_step (heap s j) (heap (running_task i s) j)"
    by (rule counters_running)
  show ?thesis
    by (simp add: run_unfold [OF True] fe fs rt split: outcome.splits)
qed

lemma counters_cancel: "counters_step (heap s j) (heap (snd (Scheduler_cancel i s)) j)"
proof -
  consider "state (heap s i) = QUEUED" | "state (heap s i) = CANCELLED"
    | "state (heap s i) \<noteq> QUEUED" "state (heap s i) \<noteq> CANCELLED" by blast
  then show ?thesis
  proof cases
    case 1
    then show ?thesis by (simp add: cancel_queued update_task_def counters_step_def)
  next
    case 2
    then show ?thesis by (simp add: cancel_cancelled)
  next
    case 3
    then show ?thesis by (simp add: cancel_not_queued)
  qed
qed

lemma counters_task_cancel: "counters_step (heap s j) (heap (snd (ScheduledTask_cancel i s)) j)"
proof (cases "state (heap s i) = QUEUED")
  case True
  then show ?thesis by (simp add: cancel_task_queued update_task_def counters_step_def)
next
  case False
  then show ?thesis by (simp add: cancel_task_not_queued)
qed

lemma counters_next: "counters_step (heap s j) (heap (snd (Scheduler_next now s)) j)"
  using next_result [of now s "fst (Scheduler_next now s)" "snd (Scheduler_next now s)"]
  by simp

lemma counters_apply_op:
  assumes "j < id_counter s"
  shows "counters_step (heap s j) (heap (apply_op now x s) j)"
proof (cases x)
  case (OpSchedule tk options)
  with assms show ?thesis
    by (simp add: Scheduler_schedule_def Let_def emit_def)
next
  case (OpThen i h)
  then show ?thesis by (simp add: update_task_def counters_step_def)
qed (simp_all add: counters_cancel counters_task_cancel counters_next counters_run
       counters_finishSuccess counters_finishError)

lemma id_counter_apply_op: "id_counter s \<le> id_counter (apply_op now x s)"
proof (cases x)
  case (OpSchedule tk options)
  then show ?thesis by (simp add: Scheduler_schedule_def Let_def emit_def)
next
  case (OpCancel i)
  consider "state (heap s i) = QUEUED" | "state (heap s i) = CANCELLED"
    | "state (heap s i) \<noteq> QUEUED" "state (heap s i) \<noteq> CANCELLED" by blast
  then show ?thesis
    by cases (simp_all add: OpCancel cancel_queued cancel_cancelled cancel_not_queued update_task_def)
next
  case (OpTaskCancel i)
  then show ?thesis
    by (cases "state (heap s i) = QUEUED")
       (simp_all add: cancel_task_queued cancel_task_not_queued update_task_def)
next
  case OpNext
  then show ?thesis
    using next_result [of now s "fst (Scheduler_next now s)" "snd (Scheduler_next now s)"] by simp
next
  case (OpRun i)
  show ?thesis
  proof (cases "state (heap s i) = QUEUED")
    case False
    then show ?thesis by (simp add: OpRun run_wrong_state)
  next
    case True
    have "\<And>e. id_counter (finishError i e (running_task i s)) = id_counter s"
      by (case_tac "retries (heap (running_task i s) i) > 0")
         (simp_all add: finishError_retry finishError_final running_task_fields)
    then show ?thesis
      by (simp add: OpRun run_unfold [OF True] finishSuccess_fields running_task_fields
          split: outcome.splits)
  qed
next
  case (OpFinishSuccess i v)
  then show ?thesis by (simp add: finishSuccess_fields)
next
  case (OpFinishError i e)
  then show ?thesis
    by (cases "retries (heap s i) > 0") (simp_all add: finishError_retry finishError_final)
next
  case (OpThen i h)
  then show ?thesis by (simp add: update_task_def)
qed

lemma budget_apply_ops:
  assumes "j < id_counter s"
  shows "retries (heap (apply_ops ops s) j) + attempt (heap (apply_ops ops s) j)
           = retries (heap s j) + attempt (heap s j)"
  using assms
proof (induction ops arbitrary: s)
  case Nil
  show ?case by simp
next
  case (Cons a ops)
  obtain now x where a: "a = (now, x)" by (cases a)
  have lt: "j < id_counter (apply_op now x s)"
    using Cons.prems id_counter_apply_op [of s now x] by simp
  have "retries (heap (apply_op now x s) j) + attempt (heap (apply_op now x s) j)
          = retries (heap s j) + attempt (heap s j)"
    using counters_apply_op [OF Cons.prems, of now x] by (auto simp: counters_step_def)
  with Cons.IH [OF lt] show ?case by (simp add: a)
qed

text \<open>
  C10. For a task created by \<open>schedule\<close> with \<open>retries = N\<close>, the remaining retries and the
  attempt counter add up to \<open>N\<close> after construction and after every sequence of operations on
  the scheduler and its tasks (schedule, cancel, next, run, success, failure, attaching a
  continuation), at any times. One operation leaves both counters of an existing task alone, or,
  in the retry branch of the failure handler, takes one retry and adds one attempt together.
\<close>

theorem C10_retries_plus_attempt_is_constant:
  "retries (heap (snd (Scheduler_schedule now tk options s0)) (fst (Scheduler_schedule now tk options s0)))
     + attempt (heap (snd (Scheduler_schedule now tk options s0)) (fst (Scheduler_schedule now tk options s0)))
     = requested_retries options
   \<and> (\<forall>ops.
         retries (heap (apply_ops ops (snd (Scheduler_schedule now tk options s0)))
                    (fst (Scheduler_schedule now tk options s0)))
         + attempt (heap (apply_ops ops (snd (Scheduler_schedule now tk options s0)))
                      (fst (Scheduler_schedule now tk options s0)))
         = requested_retries options)
   \<and> (\<forall>t x s j. j < id_counter s \<longrightarrow> counters_step (heap s j) (heap (apply_op t x s) j))"
proof -
  let ?i = "fst (Scheduler_schedule now tk options s0)"
  let ?s1 = "snd (Scheduler_schedule now tk options s0)"
  have i: "?i = id_counter s0" and lt: "?i < id_counter ?s1"
    and h: "heap ?s1 ?i = new_ScheduledTask tk options (id_counter s0) now"
    by (simp_all add: Scheduler_schedule_def Let_def emit_def)
  have init: "retries (heap ?s1 ?i) + attempt (heap ?s1 ?i) = requested_retries options"
    by (simp add: h requested_retries_def new_ScheduledTask_def)
  have "\<forall>ops. retries (heap (apply_ops ops ?s1) ?i) + attempt (heap (apply_ops ops ?s1) ?i)
                = requested_retries options"
    using budget_apply_ops [OF lt] init by simp
  with init show ?thesis
    using counters_apply_op by blast
qed

theorem C10_witness:
  "retries (heap (apply_ops [(1000, OpNext), (1000, OpRun 0), (2000, OpThen 0 7), (3000, OpCancel 0)]
               (snd (Scheduler_schedule 0 ex_failing_task (retry_options 1) new_Scheduler))) 0)
   + attempt (heap (apply_ops [(1000, OpNext), (1000, OpRun 0), (2000, OpThen 0 7), (3000, OpCancel 0)]
               (snd (Scheduler_schedule 0 ex_failing_task (retry_options 1) new_Scheduler))) 0)
   = 1
   \<and> counters_step
        (heap (snd (Scheduler_schedule 0 ex_failing_task (retry_options 1) new_Scheduler)) 0)
        (heap (apply_op 1000 (OpFinishError 0 (JError ''boom''))
                 (snd (Scheduler_schedule 0 ex_failing_task (retry_options 1) new_Scheduler))) 0)"
proof -
  have i: "fst (Scheduler_schedule 0 ex_failing_task (retry_options 1) new_Scheduler) = 0"
    and c: "0 < id_counter (snd (Scheduler_schedule 0 ex_failing_task (retry_options 1) new_Scheduler))"
    by (simp_all add: Scheduler_schedule_def Let_def emit_def new_Scheduler_def)
  have n: "requested_retries (retry_options 1) = 1"
    by (simp add: requested_retries_def retry_options_def)
  from C10_retries_plus_attempt_is_constant [of 0 ex_failing_task "retry_options 1" new_Scheduler]
  show ?thesis
    unfolding i n using c by blast
qed

section \<open>Retries of a task that always fails\<close>

lemma failing_trace_Suc:
  "failing_trace i run c (Suc k) =
     failing_trace i run c k @ [EvSchedule i, EvFailedAttempt i (payload (run (c + k)))]"
  by (simp add: failing_trace_def)

lemma finishError_frame:
  "(j \<noteq> i \<longrightarrow> heap (finishError j e s) i = heap s i)
   \<and> set (queue s) \<subseteq> set (queue (finishError j e s))
   \<and> (\<exists>evs. events (finishError j e s) = events s @ evs \<and> (\<forall>x \<in> set evs. event_task x = j))"
proof (cases "retries (heap s j) > 0")
  case True
  show ?thesis by (simp add: finishError_retry [OF True]) auto
next
  case False
  show ?thesis by (simp add: finishError_final [OF False])
qed

lemma run_await_frame:
  "(j \<noteq> i \<longrightarrow> heap (run_await j s) i = heap s i)
   \<and> set (queue s) \<subseteq> set (queue (run_await j s))
   \<and> (\<exists>evs. events (run_await j s) = events s @ evs \<and> (\<forall>x \<in> set evs. event_task x = j))"
proof (cases "state (heap s j) = QUEUED")
  case False
  then show ?thesis by (simp add: run_await_def run_wrong_state)
next
  case True
  let ?r = "running_task j s"
  have base: "(j \<noteq> i \<longrightarrow> heap ?r i = heap s i) \<and> queue ?r = queue s \<and> events ?r = events s"
    by (simp add: running_task_fields)
  have fe: "(j \<noteq> i \<longrightarrow> heap (finishError j e ?r) i = heap s i)
       \<and> set (queue s) \<subseteq> set (queue (finishError j e ?r))
       \<and> (\<exists>evs. events (finishError j e ?r) = events s @ evs \<and> (\<forall>x \<in> set evs. event_task x = j))" for e
    using finishError_frame [of j i e ?r] base by simp
  have fs: "(j \<noteq> i \<longrightarrow> heap (finishSuccess j v ?r) i = heap s i)
       \<and> set (queue s) \<subseteq> set (queue (finishSuccess j v ?r))
       \<and> (\<exists>evs. events (finishSuccess j v ?r) = events s @ evs \<and> (\<forall>x \<in> set evs. event_task x = j))" for v
    using base by (simp add: finishSuccess_fields)
  show ?thesis
  proof (cases "task_run (the_task (heap s j)) (data (heap s j)) (calls (heap s j))")
    case (Returns v)
    then show ?thesis using fs [of v] by (simp add: run_await_def run_unfold [OF True])
  next
    case (Throws e)
    then show ?thesis using fe [of e] by (simp add: run_await_def run_unfold [OF True])
  next
    case (AsyncResolves v)
    then show ?thesis using fs [of v]
      by (simp add: run_await_def run_unfold [OF True] run_callback_def)
  next
    case (AsyncRejects e)
    then show ?thesis using fe [of e]
      by (simp add: run_await_def run_unfold [OF True] run_callback_def)
  qed
qed

lemma events_of_frame:
  assumes "events s' = events s @ evs" "\<forall>x \<in> set evs. event_task x = j" "j \<noteq> i"
  shows "events_of i s' = events_of i s"
  using assms by (auto simp: events_of_def filter_empty_conv)

lemma promise_task_reject: "promise t = promise t' \<Longrightarrow> promise (task_reject e t) = promise (task_reject e t')"
  by (simp add: task_reject_def split: option.splits)

lemma retrying_attempt:
  assumes fail: "\<forall>k. is_failure (task_run (the_task t0) (data t0) k)"
    and r: "retry_state i t0 ev0 s"
  shows "retrying i t0 ev0 (run_await i s) \<or> failed_for_good i t0 ev0 (run_await i s)"
proof -
  let ?t = "heap s i"
  let ?run = "task_run (the_task t0) (data t0)"
  let ?k = "nat (retries t0 - retries ?t)"
  from r have st: "state ?t = QUEUED" and tk: "the_task ?t = the_task t0" "data ?t = data t0"
    and pr: "promise ?t = promise t0" and r0: "0 \<le> retries ?t" "retries ?t \<le> retries t0"
    and cl: "calls ?t = calls t0 + ?k" and at: "attempt ?t = attempt t0 + (retries t0 - retries ?t)"
    and ev: "events_of i s = ev0 @ failing_trace i ?run (calls t0) ?k"
    by (simp_all add: retry_state_def)
  have f: "is_failure (task_run (the_task ?t) (data ?t) (calls ?t))"
    using fail tk by simp
  have ra: "run_await i s = finishError i (payload (?run (calls t0 + ?k))) (running_task i s)"
    using run_await_fail [OF st f] tk cl by simp
  let ?e = "payload (?run (calls t0 + ?k))"
  let ?r = "running_task i s"
  have rr: "retries (heap ?r i) = retries ?t" by (simp add: running_task_fields)
  show ?thesis
  proof (cases "retries ?t > 0")
    case True
    then have pos: "retries (heap ?r i) > 0" by (simp add: rr)
    have k': "nat (retries t0 - (retries ?t - 1)) = Suc ?k"
      using True r0 by simp
    have "events_of i (finishError i ?e ?r) = events_of i s @ [EvSchedule i, EvFailedAttempt i ?e]"
      by (simp add: events_of_def finishError_retry [OF pos] running_task_fields)
    then have ev': "events_of i (finishError i ?e ?r) = ev0 @ failing_trace i ?run (calls t0) (Suc ?k)"
      by (simp add: ev failing_trace_Suc)
    have "retrying i t0 ev0 (finishError i ?e ?r)"
      unfolding retrying_def retry_state_def
      using True r0 tk pr cl at ev'
      by (simp add: finishError_retry [OF pos] running_task_fields k')
    then show ?thesis by (simp add: ra)
  next
    case False
    with r0 have z: "retries ?t = 0" by simp
    have zero: "\<not> retries (heap ?r i) > 0" by (simp add: rr z)
    have k: "?k = nat (retries t0)" by (simp add: z)
    have e: "?e = last_error t0" by (simp add: last_error_def k)
    have "events_of i (finishError i ?e ?r) = events_of i s @ [EvFailedTask i ?e]"
      by (simp add: events_of_def finishError_final [OF zero] running_task_fields)
    then have ev': "events_of i (finishError i ?e ?r) =
        ev0 @ failing_trace i ?run (calls t0) (nat (retries t0)) @ [EvFailedTask i (last_error t0)]"
      using ev by (simp add: k e [symmetric])
    have pp: "promise (task_reject ?e (?t\<lparr>state := RUNNING, calls := calls ?t + 1, state := FAILED\<rparr>))
                = promise (task_reject (last_error t0) t0)"
      unfolding e by (rule promise_task_reject) (simp add: pr)
    have "failed_for_good i t0 ev0 (finishError i ?e ?r)"
      unfolding failed_for_good_def
      using r0 cl at ev' pp
      by (simp add: finishError_final [OF zero] running_task_fields z)
    then show ?thesis by (simp add: ra)
  qed
qed

lemma other_attempt:
  assumes "j \<noteq> i"
  shows "heap (run_await j s) i = heap s i"
    and "set (queue s) \<subseteq> set (queue (run_await j s))"
    and "events_of i (run_await j s) = events_of i s"
proof -
  from run_await_frame [of j i s] assms obtain evs where
    h: "heap (run_await j s) i = heap s i" and q: "set (queue s) \<subseteq> set (queue (run_await j s))"
    and e: "events (run_await j s) = events s @ evs" "\<forall>x \<in> set evs. event_task x = j"
    by blast
  show "heap (run_await j s) i = heap s i" by (rule h)
  show "set (queue s) \<subseteq> set (queue (run_await j s))" by (rule q)
  show "events_of i (run_await j s) = events_of i s"
    by (rule events_of_frame [OF e assms])
qed

lemma dispatch_fails_for_good:
  assumes fail: "\<forall>k. is_failure (task_run (the_task t0) (data t0) k)"
  shows "retrying i t0 ev0 s \<or> failed_for_good i t0 ev0 s \<Longrightarrow> failed_for_good i t0 ev0 (dispatch clock s)"
proof (induction clock s rule: dispatch.induct)
  case (1 clock s)
  obtain r s1 where nx: "Scheduler_next (clock 0) s = (r, s1)"
    by (cases "Scheduler_next (clock 0) s")
  note res = next_result [OF nx]
  have same: "heap s1 = heap s" "events s1 = events s" using res by simp_all
  show ?case
  proof (cases r)
    case None
    with res have nq: "\<forall>j \<in> set (queue s). state (heap s j) \<noteq> QUEUED" by simp
    have "\<not> retrying i t0 ev0 s" using nq by (auto simp: retrying_def retry_state_def)
    with "1.prems" have "failed_for_good i t0 ev0 s" by simp
    then have "failed_for_good i t0 ev0 s1"
      by (simp add: failed_for_good_def same events_of_def)
    moreover have "dispatch clock s = s1"
      by (subst dispatch.simps) (simp add: nx None)
    ultimately show ?thesis by simp
  next
    case (Some j)
    with res obtain D where jq: "state (heap s j) = QUEUED"
      and D: "mset (queue s) = mset (queue s1) + {#j#} + D"
      and Dn: "\<forall>x \<in># D. state (heap s x) \<noteq> QUEUED" by auto
    have step: "dispatch clock s = dispatch (\<lambda>k. clock (Suc k)) (run_await j s1)"
      by (subst dispatch.simps) (simp add: nx Some)
    have "retrying i t0 ev0 (run_await j s1) \<or> failed_for_good i t0 ev0 (run_await j s1)"
      using "1.prems"
    proof
      assume ff: "failed_for_good i t0 ev0 s"
      then have "j \<noteq> i" using jq by (auto simp: failed_for_good_def)
      from other_attempt [OF this, of s1] ff
      have "failed_for_good i t0 ev0 (run_await j s1)"
        by (simp add: failed_for_good_def same events_of_def)
      then show ?thesis ..
    next
      assume rt: "retrying i t0 ev0 s"
      show ?thesis
      proof (cases "j = i")
        case False
        from rt have "i \<in># mset (queue s)" and iq: "state (heap s i) = QUEUED"
          by (simp_all add: retrying_def retry_state_def)
        then have "i \<in># mset (queue s1) + {#j#} + D" by (simp only: D)
        with False iq Dn have "i \<in> set (queue s1)" by auto
        with other_attempt [OF False, of s1] rt
        have "retrying i t0 ev0 (run_await j s1)"
          by (auto simp: retrying_def retry_state_def same events_of_def)
        then show ?thesis ..
      next
        case True
        from rt have "retry_state i t0 ev0 s1"
          by (simp add: retrying_def retry_state_def same events_of_def)
        from retrying_attempt [OF fail this] True show ?thesis by simp
      qed
    qed
    from "1.IH" [OF nx [symmetric] Some this] show ?thesis by (simp add: step)
  qed
qed

text \<open>
  Let task \<open>i\<close> be QUEUED and in the queue, with \<open>N \<ge> 0\<close> retries, and let its executor
  fail at every invocation. An attempt of the task while retries remain takes one retry, adds one
  attempt, puts the task back in state QUEUED at the end of the queue, and emits \<open>schedule\<close>
  and \<open>failedAttempt\<close>; the task meets the same conditions again with \<open>N - 1\<close>. An attempt
  with no retry left makes the task FAILED, calls \<open>_reject\<close> with the error and emits
  \<open>failedTask\<close>. Repeated dispatch, whatever else is in the queue, ends with the task FAILED
  after exactly \<open>N + 1\<close> invocations of its executor: \<open>N\<close> times \<open>schedule\<close>,
  \<open>failedAttempt\<close> and then \<open>failedTask\<close> are its events. The call of \<open>_reject\<close>
  rejects the promise of the task only if the task has one, that is, if a continuation was
  attached to it before.
\<close>

lemma always_failing_task_runs_N_plus_1_times:
  assumes N: "0 \<le> N" and r: "retries (heap s i) = N"
    and st: "state (heap s i) = QUEUED" and q: "i \<in> set (queue s)"
    and fail: "\<forall>k. is_failure (task_run (the_task (heap s i)) (data (heap s i)) k)"
  shows
    "(0 < N \<longrightarrow>
        state (heap (run_await i s) i) = QUEUED
        \<and> retries (heap (run_await i s) i) = N - 1
        \<and> attempt (heap (run_await i s) i) = attempt (heap s i) + 1
        \<and> calls (heap (run_await i s) i) = calls (heap s i) + 1
        \<and> the_task (heap (run_await i s) i) = the_task (heap s i)
        \<and> data (heap (run_await i s) i) = data (heap s i)
        \<and> promise (heap (run_await i s) i) = promise (heap s i)
        \<and> queue (run_await i s) = queue s @ [i]
        \<and> events (run_await i s) = events s @
              [EvSchedule i,
               EvFailedAttempt i (payload (task_run (the_task (heap s i)) (data (heap s i)) (calls (heap s i))))])
     \<and> (N = 0 \<longrightarrow>
        state (heap (run_await i s) i) = FAILED
        \<and> calls (heap (run_await i s) i) = calls (heap s i) + 1
        \<and> promise (heap (run_await i s) i) =
            promise (task_reject (payload (task_run (the_task (heap s i)) (data (heap s i)) (calls (heap s i))))
                       (heap s i))
        \<and> queue (run_await i s) = queue s
        \<and> events (run_await i s) = events s @
              [EvFailedTask i (payload (task_run (the_task (heap s i)) (data (heap s i)) (calls (heap s i))))])
     \<and> state (heap (dispatch clock s) i) = FAILED
     \<and> calls (heap (dispatch clock s) i) = calls (heap s i) + nat N + 1
     \<and> retries (heap (dispatch clock s) i) = 0
     \<and> attempt (heap (dispatch clock s) i) = attempt (heap s i) + N
     \<and> events_of i (dispatch clock s) =
           events_of i s
           @ failing_trace i (task_run (the_task (heap s i)) (data (heap s i))) (calls (heap s i)) (nat N)
           @ [EvFailedTask i (last_error (heap s i))]
     \<and> promise (heap (dispatch clock s) i) = promise (task_reject (last_error (heap s i)) (heap s i))
     \<and> (\<forall>p. promise (heap s i) = Some p \<and> pstate p = Pending \<longrightarrow>
           promise (heap (dispatch clock s) i) =
             Some (p\<lparr>pstate := Rejected (last_error (heap s i)), reactions := [],
                     fired := fired p @ map (\<lambda>h. (h, Rejected (last_error (heap s i)))) (reactions p)\<rparr>))"
proof -
  let ?t = "heap s i"
  let ?e = "payload (task_run (the_task ?t) (data ?t) (calls ?t))"
  let ?r = "running_task i s"
  have f: "is_failure (task_run (the_task ?t) (data ?t) (calls ?t))" using fail by simp
  have ra: "run_await i s = finishError i ?e ?r" by (rule run_await_fail [OF st f])
  have rr: "retries (heap ?r i) = N" by (simp add: running_task_fields r)
  have a: "0 < N \<longrightarrow>
        state (heap (run_await i s) i) = QUEUED
        \<and> retries (heap (run_await i s) i) = N - 1
        \<and> attempt (heap (run_await i s) i) = attempt ?t + 1
        \<and> calls (heap (run_await i s) i) = calls ?t + 1
        \<and> the_task (heap (run_await i s) i) = the_task ?t
        \<and> data (heap (run_await i s) i) = data ?t
        \<and> promise (heap (run_await i s) i) = promise ?t
        \<and> queue (run_await i s) = queue s @ [i]
        \<and> events (run_await i s) = events s @ [EvSchedule i, EvFailedAttempt i ?e]"
  proof
    assume "0 < N"
    then have pos: "retries (heap ?r i) > 0" by (simp add: rr)
    show "state (heap (run_await i s) i) = QUEUED
        \<and> retries (heap (run_await i s) i) = N - 1
        \<and> attempt (heap (run_await i s) i) = attempt ?t + 1
        \<and> calls (heap (run_await i s) i) = calls ?t + 1
        \<and> the_task (heap (run_await i s) i) = the_task ?t
        \<and> data (heap (run_await i s) i) = data ?t
        \<and> promise (heap (run_await i s) i) = promise ?t
        \<and> queue (run_await i s) = queue s @ [i]
        \<and> events (run_await i s) = events s @ [EvSchedule i, EvFailedAttempt i ?e]"
      unfolding ra by (simp add: finishError_retry [OF pos] running_task_fields r)
  qed
  have b: "N = 0 \<longrightarrow>
        state (heap (run_await i s) i) = FAILED
        \<and> calls (heap (run_await i s) i) = calls ?t + 1
        \<and> promise (heap (run_await i s) i) = promise (task_reject ?e ?t)
        \<and> queue (run_await i s) = queue s
        \<and> events (run_await i s) = events s @ [EvFailedTask i ?e]"
  proof
    assume "N = 0"
    then have zero: "\<not> retries (heap ?r i) > 0" by (simp add: rr)
    have pp: "promise (task_reject ?e (?t\<lparr>state := RUNNING, calls := calls ?t + 1, state := FAILED\<rparr>))
                = promise (task_reject ?e ?t)"
      by (rule promise_task_reject) simp
    show "state (heap (run_await i s) i) = FAILED
        \<and> calls (heap (run_await i s) i) = calls ?t + 1
        \<and> promise (heap (run_await i s) i) = promise (task_reject ?e ?t)
        \<and> queue (run_await i s) = queue s
        \<and> events (run_await i s) = events s @ [EvFailedTask i ?e]"
      unfolding ra using pp by (simp add: finishError_final [OF zero] running_task_fields)
  qed
  have start: "retrying i ?t (events_of i s) s"
    using st q N r by (simp add: retrying_def retry_state_def failing_trace_def)
  have fin: "failed_for_good i ?t (events_of i s) (dispatch clock s)"
    by (rule dispatch_fails_for_good [OF fail]) (simp add: start)
  have c: "state (heap (dispatch clock s) i) = FAILED
     \<and> calls (heap (dispatch clock s) i) = calls ?t + nat N + 1
     \<and> retries (heap (dispatch clock s) i) = 0
     \<and> attempt (heap (dispatch clock s) i) = attempt ?t + N
     \<and> events_of i (dispatch clock s) =
           events_of i s @ failing_trace i (task_run (the_task ?t) (data ?t)) (calls ?t) (nat N)
           @ [EvFailedTask i (last_error ?t)]
     \<and> promise (heap (dispatch clock s) i) = promise (task_reject (last_error ?t) ?t)"
    using fin by (simp add: failed_for_good_def r)
  have d: "\<forall>p. promise ?t = Some p \<and> pstate p = Pending \<longrightarrow>
           promise (heap (dispatch clock s) i) =
             Some (p\<lparr>pstate := Rejected (last_error ?t), reactions := [],
                     fired := fired p @ map (\<lambda>h. (h, Rejected (last_error ?t))) (reactions p)\<rparr>)"
    using c by (simp add: task_reject_def promise_settle_def)
  from a b c d show ?thesis by blast
qed

lemma ex_retry_fields:
  "queue (ex_retry n) = [0]"
  "events (ex_retry n) = [EvSchedule 0]"
  "retries (heap (ex_retry n) 0) = n"
  "state (heap (ex_retry n) 0) = QUEUED"
  "calls (heap (ex_retry n) 0) = 0"
  "attempt (heap (ex_retry n) 0) = 0"
  "task_run (the_task (heap (ex_retry n) 0)) d k = Throws (JError ''boom'')"
  "promise (heap (ex_retry n) 0) = Some \<lparr>pstate = Pending, reactions = [3], fired = []\<rparr>"
  by (simp_all add: ex_retry_def update_task_def Scheduler_schedule_def new_Scheduler_def
      emit_def pq_push_def Let_def new_ScheduledTask_def retry_options_def ex_failing_task_def
      ScheduledTask_then_def promise_then_def)

text \<open>
  An observed task with two retries: three invocations, and the continuation attached before the
  first of them fires with the rejection.
\<close>

lemma observed_task_is_rejected:
  "state (heap (dispatch (\<lambda>k. 1000 + int k) (ex_retry 2)) 0) = FAILED
   \<and> calls (heap (dispatch (\<lambda>k. 1000 + int k) (ex_retry 2)) 0) = 3
   \<and> attempt (heap (dispatch (\<lambda>k. 1000 + int k) (ex_retry 2)) 0) = 2
   \<and> retries (heap (dispatch (\<lambda>k. 1000 + int k) (ex_retry 2)) 0) = 0
   \<and> events_of 0 (dispatch (\<lambda>k. 1000 + int k) (ex_retry 2)) =
        [EvSchedule 0,
         EvSchedule 0, EvFailedAttempt 0 (JError ''boom''),
         EvSchedule 0, EvFailedAttempt 0 (JError ''boom''),
         EvFailedTask 0 (JError ''boom'')]
   \<and> promise (heap (dispatch (\<lambda>k. 1000 + int k) (ex_retry 2)) 0) =
        Some \<lparr>pstate = Rejected (JError ''boom''), reactions = [],
              fired = [(3, Rejected (JError ''boom''))]\<rparr>
   \<and> state (heap (run_await 0 (ex_retry 2)) 0) = QUEUED
   \<and> retries (heap (run_await 0 (ex_retry 2)) 0) = 1
   \<and> attempt (heap (run_await 0 (ex_retry 2)) 0) = 1
   \<and> queue (run_await 0 (ex_retry 2)) = [0, 0]
   \<and> state (heap (run_await 0 (ex_retry 0)) 0) = FAILED
   \<and> events (run_await 0 (ex_retry 0)) = [EvSchedule 0, EvFailedTask 0 (JError ''boom'')]"
proof -
  have t2: "[0..<2] = [0, Suc 0]" by (simp add: upt_rec)
  have hyp: "0 \<le> n \<Longrightarrow> 0 \<le> n \<and> retries (heap (ex_retry n) 0) = n
      \<and> state (heap (ex_retry n) 0) = QUEUED \<and> 0 \<in> set (queue (ex_retry n))
      \<and> (\<forall>k. is_failure (task_run (the_task (heap (ex_retry n) 0)) (data (heap (ex_retry n) 0)) k))" for n
    by (simp add: ex_retry_fields)
  have le: "last_error (heap (ex_retry n) 0) = JError ''boom''" for n
    by (simp add: last_error_def ex_retry_fields)
  have h2: "0 \<le> (2::int)" and h0: "0 \<le> (0::int)" by simp_all
  note two = always_failing_task_runs_N_plus_1_times [of 2 "ex_retry 2" 0 "\<lambda>k. 1000 + int k"]
  note zero = always_failing_task_runs_N_plus_1_times [of 0 "ex_retry 0" 0 "\<lambda>k. 1000 + int k"]
  from two hyp [OF h2]
  have a: "state (heap (dispatch (\<lambda>k. 1000 + int k) (ex_retry 2)) 0) = FAILED
   \<and> calls (heap (dispatch (\<lambda>k. 1000 + int k) (ex_retry 2)) 0) = 3
   \<and> attempt (heap (dispatch (\<lambda>k. 1000 + int k) (ex_retry 2)) 0) = 2
   \<and> retries (heap (dispatch (\<lambda>k. 1000 + int k) (ex_retry 2)) 0) = 0
   \<and> events_of 0 (dispatch (\<lambda>k. 1000 + int k) (ex_retry 2)) =
        [EvSchedule 0,
         EvSchedule 0, EvFailedAttempt 0 (JError ''boom''),
         EvSchedule 0, EvFailedAttempt 0 (JError ''boom''),
         EvFailedTask 0 (JError ''boom'')]
   \<and> promise (heap (dispatch (\<lambda>k. 1000 + int k) (ex_retry 2)) 0) =
        Some \<lparr>pstate = Rejected (JError ''boom''), reactions = [],
              fired = [(3, Rejected (JError ''boom''))]\<rparr>
   \<and> state (heap (run_await 0 (ex_retry 2)) 0) = QUEUED
   \<and> retries (heap (run_await 0 (ex_retry 2)) 0) = 1
   \<and> attempt (heap (run_await 0 (ex_retry 2)) 0) = 1
   \<and> queue (run_await 0 (ex_retry 2)) = [0, 0]"
    by (simp add: ex_retry_fields le events_of_def failing_trace_def t2 task_reject_def
        promise_settle_def)
  from zero hyp [OF h0]
  have b: "state (heap (run_await 0 (ex_retry 0)) 0) = FAILED
   \<and> events (run_await 0 (ex_retry 0)) = [EvSchedule 0, EvFailedTask 0 (JError ''boom'')]"
    by (simp add: ex_retry_fields)
  from a b show ?thesis by simp
qed

lemma ex_unobserved_fields:
  "queue ex_unobserved = [0]"
  "events ex_unobserved = [EvSchedule 0]"
  "retries (heap ex_unobserved 0) = 2"
  "state (heap ex_unobserved 0) = QUEUED"
  "calls (heap ex_unobserved 0) = 0"
  "attempt (heap ex_unobserved 0) = 0"
  "task_run (the_task (heap ex_unobserved 0)) d k = Throws (JError ''boom'')"
  "promise (heap ex_unobserved 0) = None"
  by (simp_all add: ex_unobserved_def Scheduler_schedule_def new_Scheduler_def
      emit_def pq_push_def Let_def new_ScheduledTask_def retry_options_def ex_failing_task_def)

text \<open>
  C1. A task that always throws is scheduled with two retries, and nothing attaches a
  continuation to it. Repeated dispatch invokes its executor exactly three times: each of the
  first two failures takes a retry, adds an attempt, requeues the task and emits
  \<open>schedule\<close> and \<open>failedAttempt\<close>, and the third failure makes the task FAILED and emits
  \<open>failedTask\<close>. But the third failure does not reject the future of the task: the promise is
  created by the first \<open>then\<close> only, \<open>_reject\<close> is \<open>NOOP\<close> until then, and the task has
  no promise after its last failure. A continuation attached to the FAILED task is registered on
  a fresh pending promise and never fires.
\<close>

theorem C1_unobserved_task_is_not_rejected:
  "state (heap (dispatch (\<lambda>k. 1000 + int k) ex_unobserved) 0) = FAILED
   \<and> calls (heap (dispatch (\<lambda>k. 1000 + int k) ex_unobserved) 0) = 3
   \<and> attempt (heap (dispatch (\<lambda>k. 1000 + int k) ex_unobserved) 0) = 2
   \<and> retries (heap (dispatch (\<lambda>k. 1000 + int k) ex_unobserved) 0) = 0
   \<and> events_of 0 (dispatch (\<lambda>k. 1000 + int k) ex_unobserved) =
        [EvSchedule 0,
         EvSchedule 0, EvFailedAttempt 0 (JError ''boom''),
         EvSchedule 0, EvFailedAttempt 0 (JError ''boom''),
         EvFailedTask 0 (JError ''boom'')]
   \<and> promise (heap (dispatch (\<lambda>k. 1000 + int k) ex_unobserved) 0) = None
   \<and> promise (ScheduledTask_then 7 (heap (dispatch (\<lambda>k. 1000 + int k) ex_unobserved) 0)) =
        Some \<lparr>pstate = Pending, reactions = [7], fired = []\<rparr>"
proof -
  have t2: "[0..<2] = [0, Suc 0]" by (simp add: upt_rec)
  have hyp: "0 \<le> (2::int) \<and> retries (heap ex_unobserved 0) = 2
      \<and> state (heap ex_unobserved 0) = QUEUED \<and> 0 \<in> set (queue ex_unobserved)
      \<and> (\<forall>k. is_failure (task_run (the_task (heap ex_unobserved 0)) (data (heap ex_unobserved 0)) k))"
    by (simp add: ex_unobserved_fields)
  have le: "last_error (heap ex_unobserved 0) = JError ''boom''"
    by (simp add: last_error_def ex_unobserved_fields)
  note two = always_failing_task_runs_N_plus_1_times [of 2 ex_unobserved 0 "\<lambda>k. 1000 + int k"]
  from two hyp
  have a: "state (heap (dispatch (\<lambda>k. 1000 + int k) ex_unobserved) 0) = FAILED
   \<and> calls (heap (dispatch (\<lambda>k. 1000 + int k) ex_unobserved) 0) = 3
   \<and> attempt (heap (dispatch (\<lambda>k. 1000 + int k) ex_unobserved) 0) = 2
   \<and> retries (heap (dispatch (\<lambda>k. 1000 + int k) ex_unobserved) 0) = 0
   \<and> events_of 0 (dispatch (\<lambda>k. 1000 + int k) ex_unobserved) =
        [EvSchedule 0,
         EvSchedule 0, EvFailedAttempt 0 (JError ''boom''),
         EvSchedule 0, EvFailedAttempt 0 (JError ''boom''),
         EvFailedTask 0 (JError ''boom'')]
   \<and> promise (heap (dispatch (\<lambda>k. 1000 + int k) ex_unobserved) 0) = None"
    by (simp add: ex_unobserved_fields le events_of_def failing_trace_def t2 task_reject_def)
  then have "promise (ScheduledTask_then 7 (heap (dispatch (\<lambda>k. 1000 + int k) ex_unobserved) 0)) =
        Some \<lparr>pstate = Pending, reactions = [7], fired = []\<rparr>"
    by (simp add: ScheduledTask_then_def promise_then_def)
  with a show ?thesis by simp
qed

section \<open>Suspension and staggered wake-up\<close>

lemma tryStop_fields:
  "\<not> running (snd (Worker_tryStop x))"
  "w_state (snd (Worker_tryStop x)) = w_state x"
  "\<not> running x \<Longrightarrow> snd (Worker_tryStop x) = x"
  by (simp_all add: Worker_tryStop_def Worker_stop_def Worker_wake_def)

lemma stop_all:
  "(w \<in> set ws \<longrightarrow> \<not> running (fold (\<lambda>w hp. hp(w := snd (Worker_tryStop (hp w)))) ws hp w))
   \<and> (w \<notin> set ws \<longrightarrow> fold (\<lambda>w hp. hp(w := snd (Worker_tryStop (hp w)))) ws hp w = hp w)
   \<and> w_state (fold (\<lambda>w hp. hp(w := snd (Worker_tryStop (hp w)))) ws hp w) = w_state (hp w)"
proof (induction ws arbitrary: hp)
  case Nil
  show ?case by simp
next
  case (Cons x xs)
  let ?hp = "hp(x := snd (Worker_tryStop (hp x)))"
  note IH = Cons.IH [of ?hp]
  show ?case
  proof (cases "w \<in> set xs")
    case True
    with IH show ?thesis by (simp add: tryStop_fields)
  next
    case False
    with IH show ?thesis by (auto simp: tryStop_fields)
  qed
qed

lemma doThrottle_fields:
  "until (throttle (doThrottle now u p)) = Some u"
  "interval (throttle (doThrottle now u p)) = None"
  "timer (throttle (doThrottle now u p)) = Some (next_timer p)"
  "timers (doThrottle now u p) (next_timer p) = Some (ThrottleExpiry (u - now))"
  "next_timer (doThrottle now u p) = Suc (next_timer p)"
  "workers (doThrottle now u p) = workers p"
  "policy (doThrottle now u p) = policy p"
  "wheap (doThrottle now u p) = fold (\<lambda>w hp. hp(w := snd (Worker_tryStop (hp w)))) (workers p) (wheap p)"
  by (simp_all add: doThrottle_def Let_def set_timer_def clear_timer_def
      split: option.splits prod.splits)

lemma doThrottle_clears:
  assumes "timer (throttle p) = Some h \<or> interval (throttle p) = Some h" "h < next_timer p"
  shows "timers (doThrottle now u p) h = None"
  using assms
  by (auto simp: doThrottle_def Let_def set_timer_def clear_timer_def
      split: option.splits prod.splits)

lemma request_task_no_sync_throw: "\<not> throws_sync (task_run (request_task r) d k)"
  by (simp add: request_task_def split: sum.splits)

lemma in_pool_quiet:
  assumes "events (snd (f (p_scheduler p))) = events (p_scheduler p)"
  shows "in_pool now f p = (fst (f (p_scheduler p)), p\<lparr>p_scheduler := snd (f (p_scheduler p))\<rparr>)"
proof -
  obtain r sch where f: "f (p_scheduler p) = (r, sch)" by (cases "f (p_scheduler p)")
  with assms have "events sch = events (p_scheduler p)" by simp
  then show ?thesis by (simp add: in_pool_def f)
qed

lemma run_quiet:
  assumes "state (heap s i) = QUEUED"
    and "\<not> throws_sync (task_run (the_task (heap s i)) (data (heap s i)) (calls (heap s i)))"
  shows "events (snd (ScheduledTask_run i s)) = events s"
    and "\<exists>r. fst (ScheduledTask_run i s) = Inr r"
    and "state (heap (snd (ScheduledTask_run i s)) i) \<in> {RUNNING, COMPLETED}"
proof -
  show "events (snd (ScheduledTask_run i s)) = events s"
    using assms
    by (cases "task_run (the_task (heap s i)) (data (heap s i)) (calls (heap s i))")
       (simp_all add: run_unfold finishSuccess_fields running_task_fields)
  show "\<exists>r. fst (ScheduledTask_run i s) = Inr r"
    using assms
    by (cases "task_run (the_task (heap s i)) (data (heap s i)) (calls (heap s i))")
       (simp_all add: run_unfold)
  show "state (heap (snd (ScheduledTask_run i s)) i) \<in> {RUNNING, COMPLETED}"
    using assms
    by (cases "task_run (the_task (heap s i)) (data (heap s i)) (calls (heap s i))")
       (simp_all add: run_unfold finishSuccess_fields running_task_fields)
qed

text \<open>
  The loop of a running worker that is not stalled, when the task it gets (if any) does not throw
  synchronously: it suspends IDLE on an empty queue, or RUNNING on the task it has started.
\<close>

lemma Worker_main_once:
  assumes run: "running (wheap p w)" and ns: "stall (wheap p w) = None"
    and quiet: "no_sync_throw (p_scheduler p)"
  shows "Worker_main w now p =
     (case Scheduler_next now (p_scheduler p) of
        (None, sch) \<Rightarrow> (set_worker w (\<lambda>x. x\<lparr>w_state := W_IDLE\<rparr>) p)\<lparr>p_scheduler := sch\<rparr>
      | (Some i, sch) \<Rightarrow>
          (set_worker w (\<lambda>x. x\<lparr>w_state := W_RUNNING\<rparr>) p)
            \<lparr>p_scheduler := snd (ScheduledTask_run i sch)\<rparr>)"
proof -
  let ?s = "p_scheduler p"
  let ?p1 = "set_worker w (\<lambda>x. x\<lparr>w_state := W_IDLE\<rparr>) p"
  obtain r sch where nx: "Scheduler_next now ?s = (r, sch)"
    by (cases "Scheduler_next now ?s")
  note res = next_result [OF nx]
  have ip1: "in_pool now (Scheduler_next now) ?p1 = (r, ?p1\<lparr>p_scheduler := sch\<rparr>)"
    using in_pool_quiet [of "Scheduler_next now" ?p1 now] res by (simp add: nx)
  show ?thesis
  proof (cases r)
    case None
    then show ?thesis
      using run ns by (subst Worker_main.simps) (simp add: ip1 nx)
  next
    case (Some i)
    with res obtain D where iq: "state (heap ?s i) = QUEUED"
      and D: "mset (queue ?s) = mset (queue sch) + {#i#} + D" by auto
    from D have "i \<in> set (queue ?s)"
      by (metis mset_eq_setD set_mset_mset union_iff union_single_eq_member)
    with quiet have nt: "\<not> throws_sync (task_run (the_task (heap sch i)) (data (heap sch i)) (calls (heap sch i)))"
      using res by (simp add: no_sync_throw_def)
    have iq': "state (heap sch i) = QUEUED" using iq res by simp
    let ?p3 = "set_worker w (\<lambda>x. x\<lparr>w_state := W_RUNNING\<rparr>) (?p1\<lparr>p_scheduler := sch\<rparr>)"
    obtain rr where rr: "fst (ScheduledTask_run i sch) = Inr rr"
      using run_quiet(2) [OF iq' nt] by blast
    have ip2: "in_pool now (ScheduledTask_run i) ?p3 =
        (Inr rr, ?p3\<lparr>p_scheduler := snd (ScheduledTask_run i sch)\<rparr>)"
      using in_pool_quiet [of "ScheduledTask_run i" ?p3 now] run_quiet(1) [OF iq' nt]
      by (simp add: rr set_worker_def)
    have eq: "?p3\<lparr>p_scheduler := snd (ScheduledTask_run i sch)\<rparr> =
        (set_worker w (\<lambda>x. x\<lparr>w_state := W_RUNNING\<rparr>) p)\<lparr>p_scheduler := snd (ScheduledTask_run i sch)\<rparr>"
      by (simp add: set_worker_def)
    show ?thesis
      using run ns by (subst Worker_main.simps) (simp add: ip1 ip2 nx Some eq)
  qed
qed

lemma Worker_tryStart_stopped:
  assumes nr: "\<not> running (wheap p w)" and quiet: "no_sync_throw (p_scheduler p)"
  shows "fst (Worker_tryStart w now p)"
    and "running (wheap (snd (Worker_tryStart w now p)) w)"
    and "w_state (wheap (snd (Worker_tryStart w now p)) w) \<in> {W_IDLE, W_RUNNING}"
    and "stall (wheap (snd (Worker_tryStart w now p)) w) = None"
    and "\<And>v. v \<noteq> w \<Longrightarrow> wheap (snd (Worker_tryStart w now p)) v = wheap p v"
    and "workers (snd (Worker_tryStart w now p)) = workers p"
    and "throttle (snd (Worker_tryStart w now p)) = throttle p"
    and "timers (snd (Worker_tryStart w now p)) = timers p"
    and "policy (snd (Worker_tryStart w now p)) = policy p"
    and "next_timer (snd (Worker_tryStart w now p)) = next_timer p"
proof -
  let ?p1 = "set_worker w (\<lambda>x. x\<lparr>stall := None\<rparr>) p"
  let ?p2 = "set_worker w (\<lambda>x. x\<lparr>running := True\<rparr>) ?p1"
  have r2: "running (wheap ?p2 w)" "stall (wheap ?p2 w) = None" "no_sync_throw (p_scheduler ?p2)"
    using quiet by (simp_all add: set_worker_def)
  have ts: "snd (Worker_tryStart w now p) = set_worker w Worker_wake (Worker_main w now ?p2)"
    and ok: "fst (Worker_tryStart w now p)"
    using nr by (simp_all add: Worker_tryStart_def Worker_start_def Let_def set_worker_def)
  show "fst (Worker_tryStart w now p)" by (rule ok)
  obtain r sch where nx: "Scheduler_next now (p_scheduler p) = (r, sch)"
    by (cases "Scheduler_next now (p_scheduler p)")
  have nx2: "Scheduler_next now (p_scheduler ?p2) = (r, sch)"
    using nx by (simp add: set_worker_def)
  note m = Worker_main_once [OF r2, of now, unfolded nx2]
  have all: "running (wheap (snd (Worker_tryStart w now p)) w)
    \<and> w_state (wheap (snd (Worker_tryStart w now p)) w) \<in> {W_IDLE, W_RUNNING}
    \<and> stall (wheap (snd (Worker_tryStart w now p)) w) = None
    \<and> (\<forall>v. v \<noteq> w \<longrightarrow> wheap (snd (Worker_tryStart w now p)) v = wheap p v)
    \<and> workers (snd (Worker_tryStart w now p)) = workers p
    \<and> throttle (snd (Worker_tryStart w now p)) = throttle p
    \<and> timers (snd (Worker_tryStart w now p)) = timers p
    \<and> policy (snd (Worker_tryStart w now p)) = policy p
    \<and> next_timer (snd (Worker_tryStart w now p)) = next_timer p"
  proof (cases r)
    case None
    show ?thesis unfolding ts m None by (simp add: set_worker_def Worker_wake_def)
  next
    case (Some i)
    show ?thesis unfolding ts m Some by (simp add: set_worker_def Worker_wake_def)
  qed
  from all show "running (wheap (snd (Worker_tryStart w now p)) w)"
    "w_state (wheap (snd (Worker_tryStart w now p)) w) \<in> {W_IDLE, W_RUNNING}"
    "stall (wheap (snd (Worker_tryStart w now p)) w) = None"
    "\<And>v. v \<noteq> w \<Longrightarrow> wheap (snd (Worker_tryStart w now p)) v = wheap p v"
    "workers (snd (Worker_tryStart w now p)) = workers p"
    "throttle (snd (Worker_tryStart w now p)) = throttle p"
    "timers (snd (Worker_tryStart w now p)) = timers p"
    "policy (snd (Worker_tryStart w now p)) = policy p"
    "next_timer (snd (Worker_tryStart w now p)) = next_timer p"
    by blast+
qed

lemma wake_starts_one:
  assumes quiet: "no_sync_throw (p_scheduler q)"
    and inv: "\<forall>w \<in> set (workers q). w_state (wheap q w) = W_STOPPED \<longrightarrow> \<not> running (wheap q w)"
    and ex: "\<exists>w \<in> set (workers q). w_state (wheap q w) = W_STOPPED"
  shows "\<exists>w \<in> set (workers q). w_state (wheap q w) = W_STOPPED
            \<and> running (wheap (throttle_wake t q) w)
            \<and> w_state (wheap (throttle_wake t q) w) \<in> {W_IDLE, W_RUNNING}
            \<and> (\<forall>v. v \<noteq> w \<longrightarrow> wheap (throttle_wake t q) v = wheap q v)"
    and "workers (throttle_wake t q) = workers q"
    and "throttle (throttle_wake t q) = throttle q"
    and "timers (throttle_wake t q) = timers q"
    and "policy (throttle_wake t q) = policy q"
proof -
  from ex obtain w where f: "find (\<lambda>w. w_state (wheap q w) = W_STOPPED) (workers q) = Some w"
    by (cases "find (\<lambda>w. w_state (wheap q w) = W_STOPPED) (workers q)") (auto simp: find_None_iff)
  then have w: "w \<in> set (workers q)" "w_state (wheap q w) = W_STOPPED"
    by (auto simp: find_Some_iff)
  with inv have nr: "\<not> running (wheap q w)" by simp
  have tw: "throttle_wake t q = snd (Worker_tryStart w t q)"
    by (simp add: throttle_wake_def f)
  note ts = Worker_tryStart_stopped [OF nr quiet, where now = t]
  show "\<exists>w \<in> set (workers q). w_state (wheap q w) = W_STOPPED
            \<and> running (wheap (throttle_wake t q) w)
            \<and> w_state (wheap (throttle_wake t q) w) \<in> {W_IDLE, W_RUNNING}
            \<and> (\<forall>v. v \<noteq> w \<longrightarrow> wheap (throttle_wake t q) v = wheap q v)"
    unfolding tw using w ts(2,3,5) by blast
  show "workers (throttle_wake t q) = workers q" "throttle (throttle_wake t q) = throttle q"
    "timers (throttle_wake t q) = timers q" "policy (throttle_wake t q) = policy q"
    unfolding tw by (rule ts)+
qed

lemma wake_clears_interval:
  assumes "\<forall>w \<in> set (workers q). w_state (wheap q w) \<noteq> W_STOPPED"
  shows "interval (throttle (throttle_wake t q)) = None"
    and "\<forall>h. interval (throttle q) = Some h \<longrightarrow> timers (throttle_wake t q) h = None"
    and "wheap (throttle_wake t q) = wheap q"
    and "workers (throttle_wake t q) = workers q"
    and "policy (throttle_wake t q) = policy q"
    and "timer (throttle (throttle_wake t q)) = timer (throttle q)"
proof -
  from assms have f: "find (\<lambda>w. w_state (wheap q w) = W_STOPPED) (workers q) = None"
    by (simp add: find_None_iff)
  show "interval (throttle (throttle_wake t q)) = None"
    "\<forall>h. interval (throttle q) = Some h \<longrightarrow> timers (throttle_wake t q) h = None"
    "wheap (throttle_wake t q) = wheap q"
    "workers (throttle_wake t q) = workers q"
    "policy (throttle_wake t q) = policy q"
    "timer (throttle (throttle_wake t q)) = timer (throttle q)"
    by (simp_all add: throttle_wake_def f Let_def clear_timer_def split: option.splits)
qed

lemma expiry_fields:
  "timer (throttle (throttle_expiry t q)) = None"
  "interval (throttle (throttle_expiry t q)) = Some (next_timer (throttle_wake t q))"
  "timers (throttle_expiry t q) (next_timer (throttle_wake t q))
     = Some (WakeInterval (rate (policy (throttle_wake t q))))"
  "wheap (throttle_expiry t q) = wheap (throttle_wake t q)"
  "workers (throttle_expiry t q) = workers (throttle_wake t q)"
  "until (throttle (throttle_expiry t q)) = until (throttle (throttle_wake t q))"
  by (simp_all add: throttle_expiry_def Let_def set_timer_def split: prod.splits)

lemma ex_pool2_fields:
  "workers ex_pool2 = [0, 1]"
  "wheap ex_pool2 0 = \<lparr>w_state = W_IDLE, running = True, stall = None, wake_armed = False\<rparr>"
  "wheap ex_pool2 (Suc 0) = \<lparr>w_state = W_IDLE, running = True, stall = None, wake_armed = False\<rparr>"
  "throttle ex_pool2 = \<lparr>until = None, timer = None, interval = None\<rparr>"
  "next_timer ex_pool2 = 0"
  "policy ex_pool2 = new_SuspendPolicy None"
  "timers ex_pool2 h = None"
  "queue (p_scheduler ex_pool2) = []"
  by (simp_all add: ex_pool2_def new_RequestPool_def setWorkerLimit_def Let_def eval_nat_numeral
      Worker_tryStart_def Worker_start_def Worker_main_once no_sync_throw_def new_Scheduler_def
      next_empty set_worker_def new_Worker_def Worker_wake_def)

lemma ex_suspended_eq: "ex_suspended = doThrottle 0 10000 ex_pool2"
  by (simp add: ex_suspended_def throttle_signal_def canThrottle_def Let_def ex_pool2_fields
      new_SuspendPolicy_def)

lemma ex_suspended_fields:
  "workers ex_suspended = [0, 1]"
  "wheap ex_suspended 0 = \<lparr>w_state = W_IDLE, running = False, stall = None, wake_armed = False\<rparr>"
  "wheap ex_suspended (Suc 0) = \<lparr>w_state = W_IDLE, running = False, stall = None, wake_armed = False\<rparr>"
  "throttle ex_suspended = \<lparr>until = Some 10000, timer = Some 0, interval = None\<rparr>"
  "timers ex_suspended = (\<lambda>h. None)(0 \<mapsto> ThrottleExpiry 10000)"
  "next_timer ex_suspended = Suc 0"
  "policy ex_suspended = new_SuspendPolicy None"
  by (simp_all add: ex_suspended_eq doThrottle_def Let_def set_timer_def ex_pool2_fields
      Worker_tryStop_def Worker_stop_def Worker_wake_def fun_eq_iff)

text \<open>
  C9. A pool of two workers, both started and waiting IDLE on an empty queue, receives at time 0
  a throttle signal for time 10000. \<open>doThrottle\<close> records \<open>until\<close>, asks both workers to
  stop (neither is running afterwards) and arms the expiry timer. \<open>stop\<close> does not change the
  state of a worker: both are still IDLE, since a worker becomes STOPPED only when its loop has
  ended, and the loop of an idle worker is suspended until the next \<open>schedule\<close> event. When
  the expiry timer fires at 10000, \<open>wake\<close> finds no STOPPED worker and starts none; the
  recurring timer is armed with the default rate 5000. Its first tick, at 15000, again finds no
  STOPPED worker and clears the recurring timer. No timer is left, and both workers of the pool
  are still not running: the workers that were stopped are never started again.
\<close>

theorem C9_idle_workers_are_not_woken:
  "until (throttle ex_suspended) = Some 10000
   \<and> workers ex_suspended = [0, 1]
   \<and> \<not> running (wheap ex_suspended 0) \<and> \<not> running (wheap ex_suspended 1)
   \<and> w_state (wheap ex_suspended 0) = W_IDLE \<and> w_state (wheap ex_suspended 1) = W_IDLE
   \<and> timers ex_suspended 0 = Some (ThrottleExpiry 10000)
   \<and> wheap (timer_fire 0 10000 ex_suspended) = wheap ex_suspended
   \<and> interval (throttle (timer_fire 0 10000 ex_suspended)) = Some 1
   \<and> timers (timer_fire 0 10000 ex_suspended) 1 = Some (WakeInterval 5000)
   \<and> wheap (timer_fire 1 15000 (timer_fire 0 10000 ex_suspended)) = wheap ex_suspended
   \<and> throttle (timer_fire 1 15000 (timer_fire 0 10000 ex_suspended))
        = \<lparr>until = Some 10000, timer = None, interval = None\<rparr>
   \<and> timers (timer_fire 1 15000 (timer_fire 0 10000 ex_suspended)) = (\<lambda>h. None)"
proof -
  define q where "q = ex_suspended\<lparr>timers := \<lambda>h. None\<rparr>"
  define e where "e = timer_fire 0 10000 ex_suspended"
  have qf: "workers q = [0, 1]" "wheap q = wheap ex_suspended"
    "throttle q = \<lparr>until = Some 10000, timer = Some 0, interval = None\<rparr>"
    "timers q = (\<lambda>h. None)" "next_timer q = Suc 0" "policy q = new_SuspendPolicy None"
    by (simp_all add: q_def ex_suspended_fields)
  have eq: "e = throttle_expiry 10000 q"
    by (simp add: e_def q_def timer_fire_def clear_timer_def ex_suspended_fields)
  have fq: "find (\<lambda>w. w_state (wheap q w) = W_STOPPED) (workers q) = None"
    by (simp add: qf ex_suspended_fields)
  have wq: "workers (throttle_wake 10000 q) = [0, 1]"
    "wheap (throttle_wake 10000 q) = wheap ex_suspended"
    "throttle (throttle_wake 10000 q) = \<lparr>until = Some 10000, timer = Some 0, interval = None\<rparr>"
    "timers (throttle_wake 10000 q) = (\<lambda>h. None)"
    "next_timer (throttle_wake 10000 q) = Suc 0"
    "policy (throttle_wake 10000 q) = new_SuspendPolicy None"
    unfolding throttle_wake_def fq by (simp_all add: Let_def qf)
  have ef: "workers e = [0, 1]" "wheap e = wheap ex_suspended"
    "throttle e = \<lparr>until = Some 10000, timer = None, interval = Some 1\<rparr>"
    "timers e = (\<lambda>h. None)(1 \<mapsto> WakeInterval 5000)"
    unfolding eq
    by (simp_all add: throttle_expiry_def Let_def set_timer_def wq new_SuspendPolicy_def)
  have fe: "find (\<lambda>w. w_state (wheap e w) = W_STOPPED) (workers e) = None"
    by (simp add: ef ex_suspended_fields)
  have t: "timer_fire (Suc 0) 15000 e = throttle_wake 15000 e"
    by (simp add: timer_fire_def ef)
  have tf: "wheap (timer_fire (Suc 0) 15000 e) = wheap ex_suspended"
    "throttle (timer_fire (Suc 0) 15000 e) = \<lparr>until = Some 10000, timer = None, interval = None\<rparr>"
    "timers (timer_fire (Suc 0) 15000 e) = (\<lambda>h. None)"
    unfolding t throttle_wake_def fe by (simp_all add: Let_def ef clear_timer_def)
  have "until (throttle ex_suspended) = Some 10000
   \<and> workers ex_suspended = [0, 1]
   \<and> \<not> running (wheap ex_suspended 0) \<and> \<not> running (wheap ex_suspended 1)
   \<and> w_state (wheap ex_suspended 0) = W_IDLE \<and> w_state (wheap ex_suspended 1) = W_IDLE
   \<and> timers ex_suspended 0 = Some (ThrottleExpiry 10000)
   \<and> wheap e = wheap ex_suspended
   \<and> interval (throttle e) = Some 1
   \<and> timers e 1 = Some (WakeInterval 5000)
   \<and> wheap (timer_fire 1 15000 e) = wheap ex_suspended
   \<and> throttle (timer_fire 1 15000 e) = \<lparr>until = Some 10000, timer = None, interval = None\<rparr>
   \<and> timers (timer_fire 1 15000 e) = (\<lambda>h. None)"
    by (simp add: ef tf ex_suspended_fields)
  then show ?thesis unfolding e_def .
qed

end
